theory Spec2Isabelle
  imports Main "HOL-Library.Word"
begin

section \<open>Values of the database SDK\<close>

text \<open>
  The wrappers of package \<open>ddb\<close> never look inside an item or a key: both are Go values
  of type \<open>map[string]types.AttributeValue\<close>.  The type variable \<open>'i\<close> stands for a
  non-nil map of that type, and \<open>'i option\<close> for the Go map type itself, whose zero
  value \<open>nil\<close> is \<open>None\<close>.  A \<open>*string\<close> is a \<open>string option\<close> in the same way.

  The request and response structs belong to the SDK.  Each record lists the fields
  that the wrappers read or write, with the SDK's names, and the fields the caller in
  \<open>cmd/dynamodb/main.go\<close> fills in.
\<close>

record 'i GetItemInput =
  TableName :: "string option"
  Key :: "'i option"

record 'i GetItemOutput =
  Item :: "'i option"

record 'i UpdateItemInput =
  TableName :: "string option"
  Key :: "'i option"
  UpdateExpression :: "string option"

record 'i UpdateItemOutput =
  Attributes :: "'i option"

text \<open>\<open>types.Select\<close> is a Go string type; \<open>types.SelectCount\<close> is the string \<open>COUNT\<close>.\<close>

type_synonym Select = string

definition SelectCount :: Select where
  "SelectCount = ''COUNT''"

record 'i QueryInput =
  TableName :: "string option"
  KeyConditionExpression :: "string option"
  ExclusiveStartKey :: "'i option"
  Select :: Select

record 'i QueryOutput =
  Items :: "'i list"
  LastEvaluatedKey :: "'i option"
  Count :: "32 word"

record 'i ScanInput =
  TableName :: "string option"
  FilterExpression :: "string option"
  ExclusiveStartKey :: "'i option"

record 'i ScanOutput =
  Items :: "'i list"
  LastEvaluatedKey :: "'i option"
  Count :: "32 word"

section \<open>Errors\<close>

text \<open>
  A Go \<open>error\<close> that is not nil.  \<open>ErrNotFound\<close> is the package's sentinel, made by
  \<open>errors.New\<close>; \<open>SdkError\<close> is a failure of the SDK client, which cannot be the
  sentinel of a package it does not import; \<open>Errorf\<close> is \<open>fmt.Errorf\<close> with a prefix
  and the verb \<open>%w\<close>; \<open>Join\<close> is \<open>errors.Join\<close>.  \<open>error option\<close> is the Go
  interface type, \<open>None\<close> its nil.
\<close>

datatype error =
    ErrNotFound
  | SdkError string
  | Errorf string error
  | Join "error list"

text \<open>\<open>errors.Is\<close>: the error itself or anything it wraps equals the target.\<close>

fun errors_Is :: "error \<Rightarrow> error \<Rightarrow> bool" where
  "errors_Is ErrNotFound target = (target = ErrNotFound)"
| "errors_Is (SdkError m) target = (target = SdkError m)"
| "errors_Is (Errorf m e) target = (target = Errorf m e \<or> errors_Is e target)"
| "errors_Is (Join es) target = (target = Join es \<or> (\<exists>e \<in> set es. errors_Is e target))"

section \<open>The client\<close>

text \<open>
  The SDK client is a collaborator outside the repository.  It is a parameter of the
  model: for each operation a function from the calls made so far and the request to
  the answer, \<open>Inl\<close> a failure and \<open>Inr\<close> the response.  The list of calls made so far
  is the only state there is, so a client can answer a request differently each
  time.  The client does not change the request it is handed.
\<close>

datatype 'i call =
    CallGetItem "'i GetItemInput"
  | CallUpdateItem "'i UpdateItemInput"
  | CallQuery "'i QueryInput"
  | CallScan "'i ScanInput"

record 'i Client =
  client_GetItem :: "'i call list \<Rightarrow> 'i GetItemInput \<Rightarrow> string + 'i GetItemOutput"
  client_UpdateItem :: "'i call list \<Rightarrow> 'i UpdateItemInput \<Rightarrow> string + 'i UpdateItemOutput"
  client_Query :: "'i call list \<Rightarrow> 'i QueryInput \<Rightarrow> string + 'i QueryOutput"
  client_Scan :: "'i call list \<Rightarrow> 'i ScanInput \<Rightarrow> string + 'i ScanOutput"

section \<open>Single items\<close>

text \<open>
  \<open>GetOne\<close> returns the Go pair \<open>(item, err)\<close> and, as every function here, the calls
  made so far.
\<close>

definition GetOne ::
  "'i Client \<Rightarrow> 'i call list \<Rightarrow> 'i GetItemInput \<Rightarrow> ('i option \<times> error option) \<times> 'i call list" where
  "GetOne d tr input =
     (case client_GetItem d tr input of
        Inl err \<Rightarrow> ((None, Some (SdkError err)), tr @ [CallGetItem input])
      | Inr output \<Rightarrow>
          if Item output = None then ((None, Some ErrNotFound), tr @ [CallGetItem input])
          else ((Item output, None), tr @ [CallGetItem input]))"

definition UpdateIfExistsOrFail ::
  "'i Client \<Rightarrow> 'i call list \<Rightarrow> 'i UpdateItemInput \<Rightarrow> error option \<times> 'i call list" where
  "UpdateIfExistsOrFail d tr input =
     (case GetOne d tr \<lparr>GetItemInput.TableName = UpdateItemInput.TableName input,
                        GetItemInput.Key = UpdateItemInput.Key input\<rparr> of
        ((_, Some err), tr1) \<Rightarrow>
          if errors_Is err ErrNotFound then (Some ErrNotFound, tr1) else (Some err, tr1)
      | ((_, None), tr1) \<Rightarrow>
          (case client_UpdateItem d tr1 input of
             Inl err \<Rightarrow> (Some (SdkError err), tr1 @ [CallUpdateItem input])
           | Inr _ \<Rightarrow> (None, tr1 @ [CallUpdateItem input])))"

section \<open>Fetching every page\<close>

text \<open>
  \<open>ScanAll\<close> and \<open>QueryAll\<close> take a pointer to the request and assign to its
  \<open>ExclusiveStartKey\<close> at the head of every iteration, so the model hands the request
  back as the caller finds it afterwards: the result is the Go pair \<open>(items, err)\<close>,
  the request, and the calls made so far.  The loop has no bound of its own; it ends
  when the client fails or answers without \<open>LastEvaluatedKey\<close>.  \<open>None\<close> is a
  call that never returns.
\<close>

partial_function (option) ScanAll_loop ::
  "'i Client \<Rightarrow> 'i call list \<Rightarrow> 'i ScanInput \<Rightarrow> 'i option \<Rightarrow> 'i list \<Rightarrow>
     (('i list option \<times> error option) \<times> 'i ScanInput \<times> 'i call list) option" where
  "ScanAll_loop d tr input lastEvaluatedKey items =
     (let input1 = input\<lparr>ScanInput.ExclusiveStartKey := lastEvaluatedKey\<rparr> in
      case client_Scan d tr input1 of
        Inl err \<Rightarrow> Some ((None, Some (SdkError err)), input1, tr @ [CallScan input1])
      | Inr output \<Rightarrow>
          (let items1 = items @ ScanOutput.Items output in
           if ScanOutput.LastEvaluatedKey output = None
           then Some ((Some items1, None), input1, tr @ [CallScan input1])
           else ScanAll_loop d (tr @ [CallScan input1]) input1
                  (ScanOutput.LastEvaluatedKey output) items1))"

declare ScanAll_loop.simps [code]

definition ScanAll ::
  "'i Client \<Rightarrow> 'i call list \<Rightarrow> 'i ScanInput \<Rightarrow>
     (('i list option \<times> error option) \<times> 'i ScanInput \<times> 'i call list) option" where
  "ScanAll d tr input = ScanAll_loop d tr input None []"

partial_function (option) QueryAll_loop ::
  "'i Client \<Rightarrow> 'i call list \<Rightarrow> 'i QueryInput \<Rightarrow> 'i option \<Rightarrow> 'i list \<Rightarrow>
     (('i list option \<times> error option) \<times> 'i QueryInput \<times> 'i call list) option" where
  "QueryAll_loop d tr input lastEvaluatedKey items =
     (let input1 = input\<lparr>QueryInput.ExclusiveStartKey := lastEvaluatedKey\<rparr> in
      case client_Query d tr input1 of
        Inl err \<Rightarrow> Some ((None, Some (SdkError err)), input1, tr @ [CallQuery input1])
      | Inr output \<Rightarrow>
          (let items1 = items @ QueryOutput.Items output in
           if QueryOutput.LastEvaluatedKey output = None
           then Some ((Some items1, None), input1, tr @ [CallQuery input1])
           else QueryAll_loop d (tr @ [CallQuery input1]) input1
                  (QueryOutput.LastEvaluatedKey output) items1))"

declare QueryAll_loop.simps [code]

definition QueryAll ::
  "'i Client \<Rightarrow> 'i call list \<Rightarrow> 'i QueryInput \<Rightarrow>
     (('i list option \<times> error option) \<times> 'i QueryInput \<times> 'i call list) option" where
  "QueryAll d tr input = QueryAll_loop d tr input None []"

section \<open>Counting\<close>

text \<open>
  \<open>GetQueryCount\<close> takes the request by value: the assignment to \<open>Select\<close> changes
  the function's own copy, \<open>input1\<close> below, and the caller's request is no part of
  what comes back.  \<open>output.Count\<close> is an \<open>int32\<close>, converted to \<open>int\<close>.
\<close>

definition GetQueryCount ::
  "'i Client \<Rightarrow> 'i call list \<Rightarrow> 'i QueryInput \<Rightarrow> (int \<times> error option) \<times> 'i call list" where
  "GetQueryCount d tr input =
     (let input1 = (if Select input \<noteq> SelectCount then input\<lparr>Select := SelectCount\<rparr>
                    else input) in
      case client_Query d tr input1 of
        Inl err \<Rightarrow> ((0, Some (SdkError err)), tr @ [CallQuery input1])
      | Inr output \<Rightarrow> ((sint (QueryOutput.Count output), None), tr @ [CallQuery input1]))"

section \<open>Query with pagination\<close>

text \<open>
  \<open>PaginationOps\<close> embeds the SDK's \<open>QueryInput\<close>; Go's \<open>input.ExclusiveStartKey\<close> is
  the field of the embedded struct.  \<open>Skip\<close> and \<open>Limit\<close> are Go \<open>int\<close>s.  They are
  only compared, and subtracted from or added to lengths of slices held in memory,
  which stays within 64 bits, so they are integers here.
\<close>

record 'i PaginationOps =
  QueryInput :: "'i QueryInput"
  Skip :: int
  Limit :: int

record 'i PaginatedResults =
  Items :: "'i list"
  Skip :: int
  Limit :: int
  Count :: int

text \<open>
  \<open>QueryWithPagination\<close> starts two goroutines and collects what they send on
  \<open>errChan\<close> until both are done.  Both hold the pointer \<open>input\<close>: the fetching
  goroutine assigns to \<open>input.ExclusiveStartKey\<close> (line 137) and hands
  \<open>&input.QueryInput\<close> to the client (line 138), the counting goroutine copies
  \<open>input.QueryInput\<close> when it evaluates the argument of \<open>GetQueryCount\<close> (line 173).
  The order of these events and of the two goroutines' client calls and sends is the
  scheduler's choice, so each goroutine is a machine that takes one step per event, and
  a schedule says whose turn it is.

  The fetching goroutine is at the head of the loop with \<open>lastEvaluatedKey\<close> and
  \<open>items\<close> (\<open>FetchLoop\<close>), or has assigned the key and is about to query
  (\<open>FetchQuery\<close>), or has left the loop (\<open>FetchSkip\<close>, line 161), or is about to send
  on \<open>errChan\<close> (\<open>FetchSend\<close>, lines 141 and 167), or has returned (\<open>FetchDone\<close>).  A
  slice expression out of range is a run-time panic, which ends the whole process
  (\<open>FetchPanic\<close>).
\<close>

datatype task = FetchTask | CountTask

datatype 'i fetch_state =
    FetchLoop "'i option" "'i list"
  | FetchQuery "'i list"
  | FetchSkip "'i list"
  | FetchSend "error option" "'i list"
  | FetchDone "error option" "'i list"
  | FetchPanic

text \<open>
  The counting goroutine is about to copy the request (\<open>CountCopy\<close>), or is inside
  \<open>GetQueryCount\<close> with its copy (\<open>CountCall\<close>), or is about to send
  (\<open>CountSend\<close>, with the value of the variable \<open>count\<close>), or has returned.
\<close>

datatype 'i count_state =
    CountCopy
  | CountCall "'i QueryInput"
  | CountSend "error option" int
  | CountDone "error option" int

text \<open>
  What the goroutines share: the caller's \<open>PaginationOps\<close>, the client (its state is
  the list of calls made), and the errors received from \<open>errChan\<close> in the order of
  their arrival.  \<open>fetch_log\<close> and \<open>count_log\<close> are auxiliary: they record each
  goroutine's own client calls with the answers, and no step reads them.
\<close>

record 'i goroutines =
  input :: "'i PaginationOps"
  calls :: "'i call list"
  fetch :: "'i fetch_state"
  count :: "'i count_state"
  errs :: "error list"
  fetch_log :: "('i QueryInput \<times> (string + 'i QueryOutput)) list"
  count_log :: "('i QueryInput \<times> (string + 'i QueryOutput)) list"

text \<open>
  One step of the fetching goroutine.  In \<open>output.Items[:l]\<close> the bound \<open>l\<close> is never
  above \<open>len(output.Items)\<close>, so the expression panics exactly when \<open>l\<close> is negative;
  \<open>items[input.Skip:]\<close> is reached with \<open>input.Skip < len(items)\<close> and panics exactly
  when \<open>input.Skip\<close> is negative.
\<close>

definition step_fetch :: "'i Client \<Rightarrow> 'i goroutines \<Rightarrow> 'i goroutines" where
  "step_fetch d c =
     (case fetch c of
        FetchLoop lastEvaluatedKey items \<Rightarrow>
          c\<lparr>input := (input c)\<lparr>QueryInput :=
                 (QueryInput (input c))\<lparr>QueryInput.ExclusiveStartKey := lastEvaluatedKey\<rparr>\<rparr>,
            fetch := FetchQuery items\<rparr>
      | FetchQuery items \<Rightarrow>
          (let req = QueryInput (input c);
               answer = client_Query d (calls c) req;
               c1 = c\<lparr>calls := calls c @ [CallQuery req],
                      fetch_log := fetch_log c @ [(req, answer)]\<rparr>
           in case answer of
                Inl err \<Rightarrow>
                  c1\<lparr>fetch := FetchSend (Some (Errorf ''error querying dynamo'' (SdkError err)))
                                items\<rparr>
              | Inr output \<Rightarrow>
                  (let l = (if int (length (QueryOutput.Items output)) + int (length items)
                                 > PaginationOps.Limit (input c)
                            then PaginationOps.Limit (input c) - int (length items)
                            else int (length (QueryOutput.Items output)))
                   in if l < 0 \<or> int (length (QueryOutput.Items output)) < l
                      then c1\<lparr>fetch := FetchPanic\<rparr>
                      else
                        (let items1 = items @ take (nat l) (QueryOutput.Items output)
                         in if QueryOutput.LastEvaluatedKey output = None
                               \<or> int (length items1) \<ge> PaginationOps.Limit (input c)
                            then c1\<lparr>fetch := FetchSkip items1\<rparr>
                            else c1\<lparr>fetch := FetchLoop (QueryOutput.LastEvaluatedKey output)
                                              items1\<rparr>)))
      | FetchSkip items \<Rightarrow>
          if PaginationOps.Skip (input c) \<ge> int (length items)
          then c\<lparr>fetch := FetchSend None []\<rparr>
          else if PaginationOps.Skip (input c) < 0
          then c\<lparr>fetch := FetchPanic\<rparr>
          else c\<lparr>fetch := FetchSend None (drop (nat (PaginationOps.Skip (input c))) items)\<rparr>
      | FetchSend err items \<Rightarrow>
          c\<lparr>errs := errs c @ (case err of None \<Rightarrow> [] | Some e \<Rightarrow> [e]),
            fetch := FetchDone err items\<rparr>
      | FetchDone err items \<Rightarrow> c
      | FetchPanic \<Rightarrow> c)"

text \<open>
  One step of the counting goroutine.  The call of \<open>GetQueryCount\<close> is one step: it
  makes one client call and touches nothing shared besides.
\<close>

definition step_count :: "'i Client \<Rightarrow> 'i goroutines \<Rightarrow> 'i goroutines" where
  "step_count d c =
     (case count c of
        CountCopy \<Rightarrow> c\<lparr>count := CountCall (QueryInput (input c))\<rparr>
      | CountCall copy \<Rightarrow>
          (case GetQueryCount d (calls c) copy of
             ((n, Some err), tr) \<Rightarrow>
               c\<lparr>calls := tr,
                 count_log := count_log c @
                    [(copy\<lparr>Select := SelectCount\<rparr>,
                      client_Query d (calls c) (copy\<lparr>Select := SelectCount\<rparr>))],
                 count := CountSend (Some (Errorf ''error getting query count'' err)) 0\<rparr>
           | ((n, None), tr) \<Rightarrow>
               c\<lparr>calls := tr,
                 count_log := count_log c @
                    [(copy\<lparr>Select := SelectCount\<rparr>,
                      client_Query d (calls c) (copy\<lparr>Select := SelectCount\<rparr>))],
                 count := CountSend None n\<rparr>)
      | CountSend err n \<Rightarrow>
          c\<lparr>errs := errs c @ (case err of None \<Rightarrow> [] | Some e \<Rightarrow> [e]),
            count := CountDone err n\<rparr>
      | CountDone err n \<Rightarrow> c)"

text \<open>A panic ends the process: nothing steps after it.\<close>

definition step :: "'i Client \<Rightarrow> task \<Rightarrow> 'i goroutines \<Rightarrow> 'i goroutines" where
  "step d t c =
     (if fetch c = FetchPanic then c
      else case t of FetchTask \<Rightarrow> step_fetch d c | CountTask \<Rightarrow> step_count d c)"

fun run :: "'i Client \<Rightarrow> task list \<Rightarrow> 'i goroutines \<Rightarrow> 'i goroutines" where
  "run d [] c = c"
| "run d (t # sched) c = run d sched (step d t c)"

definition start :: "'i call list \<Rightarrow> 'i PaginationOps \<Rightarrow> 'i goroutines" where
  "start tr ops =
     \<lparr>input = ops, calls = tr, fetch = FetchLoop None [], count = CountCopy, errs = [],
      fetch_log = [], count_log = []\<rparr>"

text \<open>
  The caller gets its result once both goroutines have returned and \<open>errChan\<close> is
  closed: the Go pair \<open>(results, err)\<close>, with the \<open>PaginationOps\<close> as the goroutines
  left it and the calls made.  A schedule that ends before that is a call that has not
  returned yet.
\<close>

datatype 'a outcome = Returned 'a | Panicked

definition finish ::
  "'i goroutines \<Rightarrow>
     (('i PaginatedResults option \<times> error option) \<times> 'i PaginationOps \<times> 'i call list)
       outcome option" where
  "finish c =
     (case fetch c of
        FetchPanic \<Rightarrow> Some Panicked
      | FetchDone ferr items \<Rightarrow>
          (case count c of
             CountDone cerr n \<Rightarrow>
               Some (Returned
                 ((if length (errs c) > 0 then (None, Some (Join (errs c)))
                   else (Some \<lparr>PaginatedResults.Items = items,
                               PaginatedResults.Skip = PaginationOps.Skip (input c),
                               PaginatedResults.Limit = PaginationOps.Limit (input c),
                               PaginatedResults.Count = n\<rparr>, None)),
                  input c, calls c))
           | _ \<Rightarrow> None)
      | _ \<Rightarrow> None)"

definition QueryWithPagination ::
  "'i Client \<Rightarrow> task list \<Rightarrow> 'i call list \<Rightarrow> 'i PaginationOps \<Rightarrow>
     (('i PaginatedResults option \<times> error option) \<times> 'i PaginationOps \<times> 'i call list)
       outcome option" where
  "QueryWithPagination d sched tr ops = finish (run d sched (start tr ops))"

section \<open>A table to run the wrappers on\<close>

text \<open>
  A client that serves a table held as a list of pages.  The cursor of a page is its
  last item, and the last page has none.  A count-only query answers with no items and
  the number of matches from the cursor on.  The call whose number (the calls made
  before it) is listed in \<open>failing\<close> fails, whatever it asks.
\<close>

fun pages_after :: "'i option \<Rightarrow> 'i list list \<Rightarrow> 'i list list" where
  "pages_after None pages = pages"
| "pages_after (Some k) [] = []"
| "pages_after (Some k) (p # ps) =
     (if p \<noteq> [] \<and> last p = k then ps else pages_after (Some k) ps)"

definition table_GetItem ::
  "'i list list \<Rightarrow> nat list \<Rightarrow> 'i call list \<Rightarrow> 'i GetItemInput \<Rightarrow> string + 'i GetItemOutput" where
  "table_GetItem pages failing tr req =
     (if length tr \<in> set failing then Inl ''InternalServerError''
      else case GetItemInput.Key req of
             None \<Rightarrow> Inl ''ValidationException''
           | Some k \<Rightarrow> Inr \<lparr>Item = (if k \<in> set (concat pages) then Some k else None)\<rparr>)"

definition table_UpdateItem ::
  "'i list list \<Rightarrow> nat list \<Rightarrow> 'i call list \<Rightarrow> 'i UpdateItemInput \<Rightarrow>
     string + 'i UpdateItemOutput" where
  "table_UpdateItem pages failing tr req =
     (if length tr \<in> set failing then Inl ''InternalServerError''
      else Inr \<lparr>Attributes = None\<rparr>)"

definition table_Query ::
  "'i list list \<Rightarrow> nat list \<Rightarrow> 'i call list \<Rightarrow> 'i QueryInput \<Rightarrow> string + 'i QueryOutput" where
  "table_Query pages failing tr req =
     (if length tr \<in> set failing then Inl ''InternalServerError''
      else if Select req = SelectCount
      then Inr \<lparr>QueryOutput.Items = [], QueryOutput.LastEvaluatedKey = None,
                QueryOutput.Count =
                  of_nat (length (concat (pages_after (QueryInput.ExclusiveStartKey req) pages)))\<rparr>
      else case pages_after (QueryInput.ExclusiveStartKey req) pages of
             [] \<Rightarrow> Inr \<lparr>QueryOutput.Items = [], QueryOutput.LastEvaluatedKey = None,
                        QueryOutput.Count = 0\<rparr>
           | p # ps \<Rightarrow>
               Inr \<lparr>QueryOutput.Items = p,
                    QueryOutput.LastEvaluatedKey = (if ps = [] then None else Some (last p)),
                    QueryOutput.Count = of_nat (length p)\<rparr>)"

definition table_Scan ::
  "'i list list \<Rightarrow> nat list \<Rightarrow> 'i call list \<Rightarrow> 'i ScanInput \<Rightarrow> string + 'i ScanOutput" where
  "table_Scan pages failing tr req =
     (if length tr \<in> set failing then Inl ''InternalServerError''
      else case pages_after (ScanInput.ExclusiveStartKey req) pages of
             [] \<Rightarrow> Inr \<lparr>ScanOutput.Items = [], ScanOutput.LastEvaluatedKey = None,
                        ScanOutput.Count = 0\<rparr>
           | p # ps \<Rightarrow>
               Inr \<lparr>ScanOutput.Items = p,
                    ScanOutput.LastEvaluatedKey = (if ps = [] then None else Some (last p)),
                    ScanOutput.Count = of_nat (length p)\<rparr>)"

definition table_client :: "'i list list \<Rightarrow> nat list \<Rightarrow> 'i Client" where
  "table_client pages failing =
     \<lparr>client_GetItem = table_GetItem pages failing,
      client_UpdateItem = table_UpdateItem pages failing,
      client_Query = table_Query pages failing,
      client_Scan = table_Scan pages failing\<rparr>"

text \<open>
  The table of the specification's scenario: ten matching items, which the server
  hands out as a page of three and a page of seven; and requests on it as the caller
  in \<open>cmd/dynamodb/main.go\<close> builds them.
\<close>

definition example_table :: "nat list list" where
  "example_table = [[1, 2, 3], [4, 5, 6, 7, 8, 9, 10]]"

definition example_scan :: "nat ScanInput" where
  "example_scan =
     \<lparr>ScanInput.TableName = Some ''TABLE_NAME'', FilterExpression = None,
      ScanInput.ExclusiveStartKey = None\<rparr>"

definition example_query :: "nat QueryInput" where
  "example_query =
     \<lparr>QueryInput.TableName = Some ''TABLE_NAME'',
      KeyConditionExpression = Some ''#pk = :pk'',
      QueryInput.ExclusiveStartKey = None, Select = []\<rparr>"

definition example_ops :: "nat PaginationOps" where
  "example_ops =
     \<lparr>QueryInput = example_query, PaginationOps.Skip = 2, PaginationOps.Limit = 5\<rparr>"

text \<open>
  Three schedules for a call that fetches two pages.  The fetching goroutine needs six
  steps and the counting goroutine three.  In \<open>count_first\<close> the counting goroutine
  copies the request before the other goroutine has touched it; in
  \<open>count_after_first_page\<close> it is scheduled after the fetching goroutine has received
  its first page and assigned the cursor; in \<open>fetch_first\<close> it is scheduled last.
\<close>

definition count_first :: "task list" where
  "count_first =
     [CountTask, CountTask, CountTask,
      FetchTask, FetchTask, FetchTask, FetchTask, FetchTask, FetchTask]"

definition count_after_first_page :: "task list" where
  "count_after_first_page =
     [FetchTask, FetchTask, FetchTask, CountTask, CountTask, CountTask,
      FetchTask, FetchTask, FetchTask]"

definition fetch_first :: "task list" where
  "fetch_first =
     [FetchTask, FetchTask, FetchTask, FetchTask, FetchTask, FetchTask,
      CountTask, CountTask, CountTask]"

section \<open>The chain of cursors\<close>

text \<open>
  What the specification says of \<open>ScanAll\<close> and \<open>QueryAll\<close>, in its own words: the
  request goes out with the cursor of the previous response until a response arrives
  without one, or a request fails.  \<open>scan_chain d tr req k ps final\<close> holds when,
  starting with the cursor \<open>k\<close> after the calls \<open>tr\<close>, the client answers with the
  pages \<open>ps\<close>, each with a cursor that the next request carries, and then with
  \<open>final\<close>: a failure, or a last page without a cursor.
\<close>

fun scan_chain ::
  "'i Client \<Rightarrow> 'i call list \<Rightarrow> 'i ScanInput \<Rightarrow> 'i option \<Rightarrow> 'i ScanOutput list \<Rightarrow>
     string + 'i ScanOutput \<Rightarrow> bool" where
  "scan_chain d tr req k [] final =
     (client_Scan d tr (req\<lparr>ScanInput.ExclusiveStartKey := k\<rparr>) = final
      \<and> (case final of Inl err \<Rightarrow> True | Inr p \<Rightarrow> ScanOutput.LastEvaluatedKey p = None))"
| "scan_chain d tr req k (p # ps) final =
     (client_Scan d tr (req\<lparr>ScanInput.ExclusiveStartKey := k\<rparr>) = Inr p
      \<and> ScanOutput.LastEvaluatedKey p \<noteq> None
      \<and> scan_chain d (tr @ [CallScan (req\<lparr>ScanInput.ExclusiveStartKey := k\<rparr>)]) req
           (ScanOutput.LastEvaluatedKey p) ps final)"

fun query_chain ::
  "'i Client \<Rightarrow> 'i call list \<Rightarrow> 'i QueryInput \<Rightarrow> 'i option \<Rightarrow> 'i QueryOutput list \<Rightarrow>
     string + 'i QueryOutput \<Rightarrow> bool" where
  "query_chain d tr req k [] final =
     (client_Query d tr (req\<lparr>QueryInput.ExclusiveStartKey := k\<rparr>) = final
      \<and> (case final of Inl err \<Rightarrow> True | Inr p \<Rightarrow> QueryOutput.LastEvaluatedKey p = None))"
| "query_chain d tr req k (p # ps) final =
     (client_Query d tr (req\<lparr>QueryInput.ExclusiveStartKey := k\<rparr>) = Inr p
      \<and> QueryOutput.LastEvaluatedKey p \<noteq> None
      \<and> query_chain d (tr @ [CallQuery (req\<lparr>QueryInput.ExclusiveStartKey := k\<rparr>)]) req
           (QueryOutput.LastEvaluatedKey p) ps final)"

section \<open>What holds while the goroutines run\<close>

text \<open>
  The pages the fetching goroutine has received so far decide where it stands.
  \<open>fetch_goes_on l n pages\<close>: starting with \<open>n\<close> items, every page of \<open>pages\<close> came with
  a cursor and left the number of items below the limit \<open>l\<close>, so the loop went on after
  each of them.  \<open>fetch_stops l pages\<close>: the loop went on after every page but the last,
  and the last page came without a cursor or brought the items to the limit or beyond.
  \<open>cursors pages\<close> are the values the loop assigns to \<open>input.ExclusiveStartKey\<close>, and
  \<open>with_key ops k\<close> is the caller's query with the start key \<open>k\<close>.
\<close>

fun fetch_goes_on :: "int \<Rightarrow> nat \<Rightarrow> 'i QueryOutput list \<Rightarrow> bool" where
  "fetch_goes_on l n [] = True"
| "fetch_goes_on l n (p # ps) =
     (QueryOutput.LastEvaluatedKey p \<noteq> None
      \<and> int (n + length (QueryOutput.Items p)) < l
      \<and> fetch_goes_on l (n + length (QueryOutput.Items p)) ps)"

definition fetch_stops :: "int \<Rightarrow> 'i QueryOutput list \<Rightarrow> bool" where
  "fetch_stops l pages =
     (pages \<noteq> [] \<and> fetch_goes_on l 0 (butlast pages)
      \<and> (QueryOutput.LastEvaluatedKey (last pages) = None
          \<or> l \<le> int (length (concat (map QueryOutput.Items pages)))))"

definition cursors :: "'i QueryOutput list \<Rightarrow> 'i option list" where
  "cursors pages = None # map QueryOutput.LastEvaluatedKey pages"

definition with_key :: "'i PaginationOps \<Rightarrow> 'i option \<Rightarrow> 'i QueryInput" where
  "with_key ops k = (QueryInput ops)\<lparr>QueryInput.ExclusiveStartKey := k\<rparr>"

definition fetch_sent ::
  "'i PaginationOps \<Rightarrow> ('i QueryInput \<times> (string + 'i QueryOutput)) list \<Rightarrow> 'i QueryInput \<Rightarrow>
     error option \<Rightarrow> 'i list \<Rightarrow> bool" where
  "fetch_sent ops log req err items =
     (case err of
        None \<Rightarrow>
          (\<exists>pages. map snd log = map Inr pages
             \<and> map fst log = map (with_key ops) (butlast (cursors pages))
             \<and> req = with_key ops (last (butlast (cursors pages)))
             \<and> fetch_stops (PaginationOps.Limit ops) pages
             \<and> 0 \<le> PaginationOps.Limit ops \<and> 0 \<le> PaginationOps.Skip ops
             \<and> items = drop (nat (PaginationOps.Skip ops))
                   (take (nat (PaginationOps.Limit ops)) (concat (map QueryOutput.Items pages))))
      | Some e \<Rightarrow>
          (\<exists>pages msg. map snd log = map Inr pages @ [Inl msg]
             \<and> map fst log = map (with_key ops) (cursors pages)
             \<and> req = with_key ops (last (cursors pages))
             \<and> fetch_goes_on (PaginationOps.Limit ops) 0 pages
             \<and> items = concat (map QueryOutput.Items pages)
             \<and> e = Errorf ''error querying dynamo'' (SdkError msg)))"

definition fetch_ok ::
  "'i PaginationOps \<Rightarrow> 'i fetch_state \<Rightarrow> ('i QueryInput \<times> (string + 'i QueryOutput)) list \<Rightarrow>
     'i QueryInput \<Rightarrow> bool" where
  "fetch_ok ops st log req =
     (case st of
        FetchLoop k items \<Rightarrow>
          (\<exists>pages. map snd log = map Inr pages
             \<and> map fst log = map (with_key ops) (butlast (cursors pages))
             \<and> req = (if pages = [] then QueryInput ops
                      else with_key ops (last (butlast (cursors pages))))
             \<and> fetch_goes_on (PaginationOps.Limit ops) 0 pages
             \<and> items = concat (map QueryOutput.Items pages)
             \<and> k = last (cursors pages))
      | FetchQuery items \<Rightarrow>
          (\<exists>pages. map snd log = map Inr pages
             \<and> map fst log = map (with_key ops) (butlast (cursors pages))
             \<and> req = with_key ops (last (cursors pages))
             \<and> fetch_goes_on (PaginationOps.Limit ops) 0 pages
             \<and> items = concat (map QueryOutput.Items pages))
      | FetchSkip items \<Rightarrow>
          (\<exists>pages. map snd log = map Inr pages
             \<and> map fst log = map (with_key ops) (butlast (cursors pages))
             \<and> req = with_key ops (last (butlast (cursors pages)))
             \<and> fetch_stops (PaginationOps.Limit ops) pages
             \<and> 0 \<le> PaginationOps.Limit ops
             \<and> items = take (nat (PaginationOps.Limit ops))
                   (concat (map QueryOutput.Items pages)))
      | FetchSend err items \<Rightarrow> fetch_sent ops log req err items
      | FetchDone err items \<Rightarrow> fetch_sent ops log req err items
      | FetchPanic \<Rightarrow>
          (\<exists>pages. map snd log = map Inr pages
             \<and> map fst log = map (with_key ops) (butlast (cursors pages))
             \<and> (PaginationOps.Limit ops < 0 \<and> length pages = 1
                 \<or> 0 \<le> PaginationOps.Limit ops \<and> PaginationOps.Skip ops < 0
                    \<and> fetch_stops (PaginationOps.Limit ops) pages)))"

definition fetch_inv :: "'i PaginationOps \<Rightarrow> 'i goroutines \<Rightarrow> bool" where
  "fetch_inv ops c = fetch_ok ops (fetch c) (fetch_log c) (QueryInput (input c))"

definition frame_inv :: "'i PaginationOps \<Rightarrow> 'i goroutines \<Rightarrow> bool" where
  "frame_inv ops c = (\<exists>k. input c = ops\<lparr>QueryInput := with_key ops k\<rparr>)"

definition copied_key :: "'i PaginationOps \<Rightarrow> 'i goroutines \<Rightarrow> 'i option \<Rightarrow> bool" where
  "copied_key ops c k =
     (k = QueryInput.ExclusiveStartKey (QueryInput ops)
      \<or> k \<in> set (map (QueryInput.ExclusiveStartKey \<circ> fst) (fetch_log c))
      \<or> (\<exists>items. fetch c = FetchQuery items)
          \<and> k = QueryInput.ExclusiveStartKey (QueryInput (input c)))"

definition counted ::
  "'i PaginationOps \<Rightarrow> 'i goroutines \<Rightarrow> error option \<Rightarrow> int \<Rightarrow> bool" where
  "counted ops c err n =
     (\<exists>k answer. count_log c = [((with_key ops k)\<lparr>Select := SelectCount\<rparr>, answer)]
        \<and> copied_key ops c k
        \<and> (case answer of
              Inl msg \<Rightarrow> err = Some (Errorf ''error getting query count'' (SdkError msg))
                           \<and> n = 0
            | Inr output \<Rightarrow> err = None \<and> n = sint (QueryOutput.Count output)))"

definition key_inv :: "'i PaginationOps \<Rightarrow> 'i goroutines \<Rightarrow> bool" where
  "key_inv ops c = copied_key ops c (QueryInput.ExclusiveStartKey (QueryInput (input c)))"

definition count_inv :: "'i PaginationOps \<Rightarrow> 'i goroutines \<Rightarrow> bool" where
  "count_inv ops c =
     (case count c of
        CountCopy \<Rightarrow> count_log c = []
      | CountCall copy \<Rightarrow> count_log c = [] \<and> (\<exists>k. copy = with_key ops k \<and> copied_key ops c k)
      | CountSend err n \<Rightarrow> counted ops c err n
      | CountDone err n \<Rightarrow> counted ops c err n)"

definition fetch_error :: "'i goroutines \<Rightarrow> error list" where
  "fetch_error c = (case fetch c of FetchDone (Some e) items \<Rightarrow> [e] | _ \<Rightarrow> [])"

definition count_error :: "'i goroutines \<Rightarrow> error list" where
  "count_error c = (case count c of CountDone (Some e) n \<Rightarrow> [e] | _ \<Rightarrow> [])"

definition errs_inv :: "'i goroutines \<Rightarrow> bool" where
  "errs_inv c =
     (errs c = fetch_error c @ count_error c \<or> errs c = count_error c @ fetch_error c)"

definition calls_inv :: "'i call list \<Rightarrow> 'i goroutines \<Rightarrow> bool" where
  "calls_inv tr c =
     (length (calls c) = length tr + length (fetch_log c) + length (count_log c)
      \<and> take (length tr) (calls c) = tr)"

definition all_inv :: "'i PaginationOps \<Rightarrow> 'i call list \<Rightarrow> 'i goroutines \<Rightarrow> bool" where
  "all_inv ops tr c =
     (frame_inv ops c \<and> fetch_inv ops c \<and> key_inv ops c \<and> count_inv ops c
      \<and> errs_inv c \<and> calls_inv tr c)"

section \<open>The goroutines get on\<close>

text \<open>
  \<open>fetch_taken_at st n\<close> is the number of steps the fetching goroutine has taken when it
  stands at \<open>st\<close> after \<open>n\<close> queries: two for every iteration of the loop, one more for
  the assignment of the key, for line 161 and for the send.  \<open>count_left\<close> is the number
  of steps the counting goroutine has still to take.
\<close>

fun fetch_taken_at :: "'i fetch_state \<Rightarrow> nat \<Rightarrow> nat" where
  "fetch_taken_at (FetchLoop k items) n = 2 * n"
| "fetch_taken_at (FetchQuery items) n = 2 * n + 1"
| "fetch_taken_at (FetchSkip items) n = 2 * n"
| "fetch_taken_at (FetchSend None items) n = 2 * n + 1"
| "fetch_taken_at (FetchSend (Some e) items) n = 2 * n"
| "fetch_taken_at (FetchDone None items) n = 2 * n + 2"
| "fetch_taken_at (FetchDone (Some e) items) n = 2 * n + 1"
| "fetch_taken_at FetchPanic n = 2 * n"

definition fetch_taken :: "'i goroutines \<Rightarrow> nat" where
  "fetch_taken c = fetch_taken_at (fetch c) (length (fetch_log c))"

fun fetch_ended :: "'i fetch_state \<Rightarrow> bool" where
  "fetch_ended (FetchDone err items) = True"
| "fetch_ended FetchPanic = True"
| "fetch_ended st = False"

fun count_left :: "'i count_state \<Rightarrow> nat" where
  "count_left CountCopy = 3"
| "count_left (CountCall copy) = 2"
| "count_left (CountSend err n) = 1"
| "count_left (CountDone err n) = 0"

text \<open>
  The answers in the two logs are answers of the client to the requests logged with
  them.
\<close>

definition answered :: "'i Client \<Rightarrow> 'i goroutines \<Rightarrow> bool" where
  "answered d c =
     (\<forall>(req, answer) \<in> set (fetch_log c) \<union> set (count_log c).
        \<exists>tr. answer = client_Query d tr req)"

text \<open>
  Two things a client may be known to do: to send no empty page with a cursor, and
  not to fail.
\<close>

definition pages_not_empty :: "'i Client \<Rightarrow> bool" where
  "pages_not_empty d =
     (\<forall>tr req p. client_Query d tr req = Inr p \<longrightarrow>
        QueryOutput.LastEvaluatedKey p \<noteq> None \<longrightarrow> QueryOutput.Items p \<noteq> [])"

definition never_fails :: "'i Client \<Rightarrow> bool" where
  "never_fails d = (\<forall>tr req. \<exists>p. client_Query d tr req = Inr p)"

section \<open>Single items: what the wrappers guarantee\<close>

lemma Select_update_same: "Select q = SelectCount \<Longrightarrow> q\<lparr>Select := SelectCount\<rparr> = q"
  by simp



text \<open>
  Claim C7.  \<open>UpdateIfExistsOrFail\<close> first makes the \<open>GetOne\<close> call on the table and
  key of the update request.  When that fails with \<open>ErrNotFound\<close> it returns
  \<open>ErrNotFound\<close> and the \<open>GetItem\<close> call is the only call made; when it fails with
  another error it returns that error, again with no update call; when it succeeds
  the update call follows and its outcome is returned.
\<close>

theorem UpdateIfExistsOrFail_checks_first:
  "(let probe = \<lparr>GetItemInput.TableName = UpdateItemInput.TableName req,
                  GetItemInput.Key = UpdateItemInput.Key req\<rparr>
    in (snd (fst (GetOne d tr probe)) = Some ErrNotFound \<longrightarrow>
          UpdateIfExistsOrFail d tr req = (Some ErrNotFound, tr @ [CallGetItem probe]))
     \<and> (\<forall>err. snd (fst (GetOne d tr probe)) = Some err \<and> err \<noteq> ErrNotFound \<longrightarrow>
          UpdateIfExistsOrFail d tr req = (Some err, tr @ [CallGetItem probe]))
     \<and> (snd (fst (GetOne d tr probe)) = None \<longrightarrow>
          UpdateIfExistsOrFail d tr req =
            ((case client_UpdateItem d (tr @ [CallGetItem probe]) req of
                Inl err \<Rightarrow> Some (SdkError err) | Inr _ \<Rightarrow> None),
             tr @ [CallGetItem probe, CallUpdateItem req])))"
  by (auto simp: UpdateIfExistsOrFail_def GetOne_def Let_def split: sum.splits)

theorem UpdateIfExistsOrFail_checks_first_witness:
  "snd (fst (GetOne (table_client [[1, 2, 3 :: nat]] []) []
       \<lparr>GetItemInput.TableName = Some ''t'', GetItemInput.Key = Some 9\<rparr>)) = Some ErrNotFound
   \<and> UpdateIfExistsOrFail (table_client [[1, 2, 3 :: nat]] []) []
       \<lparr>UpdateItemInput.TableName = Some ''t'', UpdateItemInput.Key = Some 9,
        UpdateExpression = Some ''SET a = :a''\<rparr>
       = (Some ErrNotFound,
          [CallGetItem \<lparr>GetItemInput.TableName = Some ''t'', GetItemInput.Key = Some 9\<rparr>])
   \<and> snd (fst (GetOne (table_client [[1, 2, 3 :: nat]] [0]) []
       \<lparr>GetItemInput.TableName = Some ''t'', GetItemInput.Key = Some 2\<rparr>))
       = Some (SdkError ''InternalServerError'')
   \<and> UpdateIfExistsOrFail (table_client [[1, 2, 3 :: nat]] [0]) []
       \<lparr>UpdateItemInput.TableName = Some ''t'', UpdateItemInput.Key = Some 2,
        UpdateExpression = Some ''SET a = :a''\<rparr>
       = (Some (SdkError ''InternalServerError''),
          [CallGetItem \<lparr>GetItemInput.TableName = Some ''t'', GetItemInput.Key = Some 2\<rparr>])
   \<and> snd (fst (GetOne (table_client [[1, 2, 3 :: nat]] []) []
       \<lparr>GetItemInput.TableName = Some ''t'', GetItemInput.Key = Some 2\<rparr>)) = None
   \<and> UpdateIfExistsOrFail (table_client [[1, 2, 3 :: nat]] []) []
       \<lparr>UpdateItemInput.TableName = Some ''t'', UpdateItemInput.Key = Some 2,
        UpdateExpression = Some ''SET a = :a''\<rparr>
       = (None,
          [CallGetItem \<lparr>GetItemInput.TableName = Some ''t'', GetItemInput.Key = Some 2\<rparr>,
           CallUpdateItem \<lparr>UpdateItemInput.TableName = Some ''t'',
             UpdateItemInput.Key = Some 2, UpdateExpression = Some ''SET a = :a''\<rparr>])"
  using
    UpdateIfExistsOrFail_checks_first [of
       "\<lparr>UpdateItemInput.TableName = Some ''t'', UpdateItemInput.Key = Some 9,
         UpdateExpression = Some ''SET a = :a''\<rparr>" "table_client [[1, 2, 3 :: nat]] []" "[]"]
    UpdateIfExistsOrFail_checks_first [of
       "\<lparr>UpdateItemInput.TableName = Some ''t'', UpdateItemInput.Key = Some 2,
         UpdateExpression = Some ''SET a = :a''\<rparr>" "table_client [[1, 2, 3 :: nat]] [0]" "[]"]
    UpdateIfExistsOrFail_checks_first [of
       "\<lparr>UpdateItemInput.TableName = Some ''t'', UpdateItemInput.Key = Some 2,
         UpdateExpression = Some ''SET a = :a''\<rparr>" "table_client [[1, 2, 3 :: nat]] []" "[]"]
  by (simp add: table_client_def table_GetItem_def table_UpdateItem_def GetOne_def Let_def)

text \<open>
  Claim C9.  \<open>GetQueryCount\<close> makes exactly one client call, a query that is the
  caller's request with \<open>Select\<close> set to \<open>COUNT\<close> whatever it was before, and returns
  the \<open>Count\<close> field of that one response, not the length of a list of items.
\<close>

theorem GetQueryCount_one_count_query:
  "snd (GetQueryCount d tr req) = tr @ [CallQuery (req\<lparr>Select := SelectCount\<rparr>)]
   \<and> Select (req\<lparr>Select := SelectCount\<rparr>) = SelectCount
   \<and> fst (GetQueryCount d tr req) =
       (case client_Query d tr (req\<lparr>Select := SelectCount\<rparr>) of
          Inl err \<Rightarrow> (0, Some (SdkError err))
        | Inr output \<Rightarrow> (sint (QueryOutput.Count output), None))"
  by (auto simp: GetQueryCount_def Let_def Select_update_same split: sum.splits)

section \<open>The loops follow the chain\<close>

text \<open>
  Along a chain the loop of \<open>ScanAll\<close> returns the chain's outcome, the request with
  the last cursor assigned, and the requests made; and whatever the loop returns, it
  returns along a chain.  The second lemma is by induction on the computation, which
  the loop, defined as a least fixed point, admits.
\<close>

lemma ScanAll_loop_chain:
  "scan_chain d tr req k ps final \<Longrightarrow>
   ScanAll_loop d tr (req\<lparr>ScanInput.ExclusiveStartKey := j\<rparr>) k items =
     Some ((case final of
              Inl err \<Rightarrow> (None, Some (SdkError err))
            | Inr p \<Rightarrow> (Some (items @ concat (map ScanOutput.Items ps) @ ScanOutput.Items p), None)),
           req\<lparr>ScanInput.ExclusiveStartKey := last (k # map ScanOutput.LastEvaluatedKey ps)\<rparr>,
           tr @ map (\<lambda>key. CallScan (req\<lparr>ScanInput.ExclusiveStartKey := key\<rparr>))
                  (k # map ScanOutput.LastEvaluatedKey ps))"
proof (induction ps arbitrary: tr k items j)
  case Nil
  then show ?case
    by (subst ScanAll_loop.simps) (auto simp: Let_def split: sum.splits)
next
  case (Cons p ps)
  from Cons.prems have a: "client_Scan d tr (req\<lparr>ScanInput.ExclusiveStartKey := k\<rparr>) = Inr p"
    and b: "ScanOutput.LastEvaluatedKey p \<noteq> None"
    and c: "scan_chain d (tr @ [CallScan (req\<lparr>ScanInput.ExclusiveStartKey := k\<rparr>)]) req
           (ScanOutput.LastEvaluatedKey p) ps final" by simp_all
  show ?case
    by (subst ScanAll_loop.simps) (simp add: Let_def a b Cons.IH [OF c] split: sum.splits)
qed

lemma scan_chain_key_irrelevant:
  "scan_chain d tr (req\<lparr>ScanInput.ExclusiveStartKey := j\<rparr>) k ps final = scan_chain d tr req k ps final"
  by (induction ps arbitrary: tr k) simp_all

lemma ScanAll_loop_returns:
  assumes "ScanAll_loop d tr req k items = Some y"
  shows "\<exists>ps final. scan_chain d tr req k ps final \<and>
     y = ((case final of
              Inl err \<Rightarrow> (None, Some (SdkError err))
            | Inr p \<Rightarrow> (Some (items @ concat (map ScanOutput.Items ps) @ ScanOutput.Items p), None)),
           req\<lparr>ScanInput.ExclusiveStartKey := last (k # map ScanOutput.LastEvaluatedKey ps)\<rparr>,
           tr @ map (\<lambda>key. CallScan (req\<lparr>ScanInput.ExclusiveStartKey := key\<rparr>))
                  (k # map ScanOutput.LastEvaluatedKey ps))"
proof -
  let ?P = "\<lambda>d tr req k items y. \<exists>ps final. scan_chain d tr req k ps final \<and>
     y = ((case final of
              Inl err \<Rightarrow> (None, Some (SdkError err))
            | Inr p \<Rightarrow> (Some (items @ concat (map ScanOutput.Items ps) @ ScanOutput.Items p), None)),
           req\<lparr>ScanInput.ExclusiveStartKey := last (k # map ScanOutput.LastEvaluatedKey ps)\<rparr>,
           tr @ map (\<lambda>key. CallScan (req\<lparr>ScanInput.ExclusiveStartKey := key\<rparr>))
                  (k # map ScanOutput.LastEvaluatedKey ps))"
  have "?P d tr req k items y"
  proof (rule ScanAll_loop.raw_induct [where P = ?P, OF _ assms], goal_cases)
  case (1 loop d tr req k items y)
  let ?req1 = "req\<lparr>ScanInput.ExclusiveStartKey := k\<rparr>"
  show ?case
  proof (cases "client_Scan d tr ?req1")
    case (Inl err)
    with 1(2) have "y = ((None, Some (SdkError err)), ?req1, tr @ [CallScan ?req1])"
      by (simp add: Let_def)
    with Inl show ?thesis
      by (intro exI [of _ "[]"] exI [of _ "Inl err"]) simp
  next
    case (Inr p)
    show ?thesis
    proof (cases "ScanOutput.LastEvaluatedKey p = None")
      case True
      with Inr 1(2) have "y = ((Some (items @ ScanOutput.Items p), None), ?req1, tr @ [CallScan ?req1])"
        by (simp add: Let_def)
      with Inr True show ?thesis
        by (intro exI [of _ "[]"] exI [of _ "Inr p"]) simp
    next
      case False
      with Inr 1(2) have rec: "loop d (tr @ [CallScan ?req1]) ?req1 (ScanOutput.LastEvaluatedKey p) (items @ ScanOutput.Items p) = Some y"
        by (simp add: Let_def)
      from 1(1) [OF rec] obtain ps final where
        ch: "scan_chain d (tr @ [CallScan ?req1]) ?req1 (ScanOutput.LastEvaluatedKey p) ps final"
        and y: "y = ((case final of
              Inl err \<Rightarrow> (None, Some (SdkError err))
            | Inr q \<Rightarrow> (Some ((items @ ScanOutput.Items p) @ concat (map ScanOutput.Items ps) @ ScanOutput.Items q), None)),
           ?req1\<lparr>ScanInput.ExclusiveStartKey := last (ScanOutput.LastEvaluatedKey p # map ScanOutput.LastEvaluatedKey ps)\<rparr>,
           (tr @ [CallScan ?req1]) @ map (\<lambda>key. CallScan (?req1\<lparr>ScanInput.ExclusiveStartKey := key\<rparr>))
                  (ScanOutput.LastEvaluatedKey p # map ScanOutput.LastEvaluatedKey ps))"
        by (elim exE conjE)
      from ch have "scan_chain d tr req k (p # ps) final"
        using Inr False by (simp add: scan_chain_key_irrelevant)
      moreover from y have "y = ((case final of
              Inl err \<Rightarrow> (None, Some (SdkError err))
            | Inr q \<Rightarrow> (Some (items @ concat (map ScanOutput.Items (p # ps)) @ ScanOutput.Items q), None)),
           req\<lparr>ScanInput.ExclusiveStartKey := last (k # map ScanOutput.LastEvaluatedKey (p # ps))\<rparr>,
           tr @ map (\<lambda>key. CallScan (req\<lparr>ScanInput.ExclusiveStartKey := key\<rparr>))
                  (k # map ScanOutput.LastEvaluatedKey (p # ps)))"
        by (simp split: sum.splits)
      ultimately show ?thesis by blast
    qed
  qed
  qed
  then show ?thesis .
qed

text \<open>The same for the loop of \<open>QueryAll\<close>.\<close>

lemma QueryAll_loop_chain:
  "query_chain d tr req k ps final \<Longrightarrow>
   QueryAll_loop d tr (req\<lparr>QueryInput.ExclusiveStartKey := j\<rparr>) k items =
     Some ((case final of
              Inl err \<Rightarrow> (None, Some (SdkError err))
            | Inr p \<Rightarrow> (Some (items @ concat (map QueryOutput.Items ps) @ QueryOutput.Items p), None)),
           req\<lparr>QueryInput.ExclusiveStartKey := last (k # map QueryOutput.LastEvaluatedKey ps)\<rparr>,
           tr @ map (\<lambda>key. CallQuery (req\<lparr>QueryInput.ExclusiveStartKey := key\<rparr>))
                  (k # map QueryOutput.LastEvaluatedKey ps))"
proof (induction ps arbitrary: tr k items j)
  case Nil
  then show ?case
    by (subst QueryAll_loop.simps) (auto simp: Let_def split: sum.splits)
next
  case (Cons p ps)
  from Cons.prems have a: "client_Query d tr (req\<lparr>QueryInput.ExclusiveStartKey := k\<rparr>) = Inr p"
    and b: "QueryOutput.LastEvaluatedKey p \<noteq> None"
    and c: "query_chain d (tr @ [CallQuery (req\<lparr>QueryInput.ExclusiveStartKey := k\<rparr>)]) req
           (QueryOutput.LastEvaluatedKey p) ps final" by simp_all
  show ?case
    by (subst QueryAll_loop.simps) (simp add: Let_def a b Cons.IH [OF c] split: sum.splits)
qed

lemma query_chain_key_irrelevant:
  "query_chain d tr (req\<lparr>QueryInput.ExclusiveStartKey := j\<rparr>) k ps final = query_chain d tr req k ps final"
  by (induction ps arbitrary: tr k) simp_all

lemma QueryAll_loop_returns:
  assumes "QueryAll_loop d tr req k items = Some y"
  shows "\<exists>ps final. query_chain d tr req k ps final \<and>
     y = ((case final of
              Inl err \<Rightarrow> (None, Some (SdkError err))
            | Inr p \<Rightarrow> (Some (items @ concat (map QueryOutput.Items ps) @ QueryOutput.Items p), None)),
           req\<lparr>QueryInput.ExclusiveStartKey := last (k # map QueryOutput.LastEvaluatedKey ps)\<rparr>,
           tr @ map (\<lambda>key. CallQuery (req\<lparr>QueryInput.ExclusiveStartKey := key\<rparr>))
                  (k # map QueryOutput.LastEvaluatedKey ps))"
proof -
  let ?P = "\<lambda>d tr req k items y. \<exists>ps final. query_chain d tr req k ps final \<and>
     y = ((case final of
              Inl err \<Rightarrow> (None, Some (SdkError err))
            | Inr p \<Rightarrow> (Some (items @ concat (map QueryOutput.Items ps) @ QueryOutput.Items p), None)),
           req\<lparr>QueryInput.ExclusiveStartKey := last (k # map QueryOutput.LastEvaluatedKey ps)\<rparr>,
           tr @ map (\<lambda>key. CallQuery (req\<lparr>QueryInput.ExclusiveStartKey := key\<rparr>))
                  (k # map QueryOutput.LastEvaluatedKey ps))"
  have "?P d tr req k items y"
  proof (rule QueryAll_loop.raw_induct [where P = ?P, OF _ assms], goal_cases)
  case (1 loop d tr req k items y)
  let ?req1 = "req\<lparr>QueryInput.ExclusiveStartKey := k\<rparr>"
  show ?case
  proof (cases "client_Query d tr ?req1")
    case (Inl err)
    with 1(2) have "y = ((None, Some (SdkError err)), ?req1, tr @ [CallQuery ?req1])"
      by (simp add: Let_def)
    with Inl show ?thesis
      by (intro exI [of _ "[]"] exI [of _ "Inl err"]) simp
  next
    case (Inr p)
    show ?thesis
    proof (cases "QueryOutput.LastEvaluatedKey p = None")
      case True
      with Inr 1(2) have "y = ((Some (items @ QueryOutput.Items p), None), ?req1, tr @ [CallQuery ?req1])"
        by (simp add: Let_def)
      with Inr True show ?thesis
        by (intro exI [of _ "[]"] exI [of _ "Inr p"]) simp
    next
      case False
      with Inr 1(2) have rec: "loop d (tr @ [CallQuery ?req1]) ?req1 (QueryOutput.LastEvaluatedKey p) (items @ QueryOutput.Items p) = Some y"
        by (simp add: Let_def)
      from 1(1) [OF rec] obtain ps final where
        ch: "query_chain d (tr @ [CallQuery ?req1]) ?req1 (QueryOutput.LastEvaluatedKey p) ps final"
        and y: "y = ((case final of
              Inl err \<Rightarrow> (None, Some (SdkError err))
            | Inr q \<Rightarrow> (Some ((items @ QueryOutput.Items p) @ concat (map QueryOutput.Items ps) @ QueryOutput.Items q), None)),
           ?req1\<lparr>QueryInput.ExclusiveStartKey := last (QueryOutput.LastEvaluatedKey p # map QueryOutput.LastEvaluatedKey ps)\<rparr>,
           (tr @ [CallQuery ?req1]) @ map (\<lambda>key. CallQuery (?req1\<lparr>QueryInput.ExclusiveStartKey := key\<rparr>))
                  (QueryOutput.LastEvaluatedKey p # map QueryOutput.LastEvaluatedKey ps))"
        by (elim exE conjE)
      from ch have "query_chain d tr req k (p # ps) final"
        using Inr False by (simp add: query_chain_key_irrelevant)
      moreover from y have "y = ((case final of
              Inl err \<Rightarrow> (None, Some (SdkError err))
            | Inr q \<Rightarrow> (Some (items @ concat (map QueryOutput.Items (p # ps)) @ QueryOutput.Items q), None)),
           req\<lparr>QueryInput.ExclusiveStartKey := last (k # map QueryOutput.LastEvaluatedKey (p # ps))\<rparr>,
           tr @ map (\<lambda>key. CallQuery (req\<lparr>QueryInput.ExclusiveStartKey := key\<rparr>))
                  (k # map QueryOutput.LastEvaluatedKey (p # ps)))"
        by (simp split: sum.splits)
      ultimately show ?thesis by blast
    qed
  qed
  qed
  then show ?thesis .
qed

section \<open>Fetching every page: what the wrappers guarantee\<close>

lemma ScanAll_chain:
  assumes "scan_chain d tr req None ps final"
  shows "ScanAll d tr req =
     Some ((case final of
              Inl err \<Rightarrow> (None, Some (SdkError err))
            | Inr p \<Rightarrow> (Some (concat (map ScanOutput.Items (ps @ [p]))), None)),
           req\<lparr>ScanInput.ExclusiveStartKey := last (None # map ScanOutput.LastEvaluatedKey ps)\<rparr>,
           tr @ map (\<lambda>key. CallScan (req\<lparr>ScanInput.ExclusiveStartKey := key\<rparr>))
                  (None # map ScanOutput.LastEvaluatedKey ps))"
  using ScanAll_loop_chain [OF assms, of "ScanInput.ExclusiveStartKey req" "[]"]
  by (simp add: ScanAll_def split: sum.splits)

lemma ScanAll_returns:
  assumes "ScanAll d tr req = Some (r, req', tr')"
  shows "\<exists>ps final. scan_chain d tr req None ps final
     \<and> r = (case final of
              Inl err \<Rightarrow> (None, Some (SdkError err))
            | Inr p \<Rightarrow> (Some (concat (map ScanOutput.Items (ps @ [p]))), None))
     \<and> req' = req\<lparr>ScanInput.ExclusiveStartKey := last (None # map ScanOutput.LastEvaluatedKey ps)\<rparr>
     \<and> tr' = tr @ map (\<lambda>key. CallScan (req\<lparr>ScanInput.ExclusiveStartKey := key\<rparr>))
                  (None # map ScanOutput.LastEvaluatedKey ps)"
proof -
  from ScanAll_loop_returns [OF assms [unfolded ScanAll_def]] obtain ps final where
    ch: "scan_chain d tr req None ps final"
    and y: "(r, req', tr') =
      ((case final of
          Inl err \<Rightarrow> (None, Some (SdkError err))
        | Inr p \<Rightarrow> (Some ([] @ concat (map ScanOutput.Items ps) @ ScanOutput.Items p), None)),
       req\<lparr>ScanInput.ExclusiveStartKey := last (None # map ScanOutput.LastEvaluatedKey ps)\<rparr>,
       tr @ map (\<lambda>key. CallScan (req\<lparr>ScanInput.ExclusiveStartKey := key\<rparr>))
              (None # map ScanOutput.LastEvaluatedKey ps))"
    by (elim exE conjE)
  from y have "r = (case final of
              Inl err \<Rightarrow> (None, Some (SdkError err))
            | Inr p \<Rightarrow> (Some (concat (map ScanOutput.Items (ps @ [p]))), None))"
    by (cases final) simp_all
  with ch y show ?thesis
    by (intro exI [of _ ps] exI [of _ final]) simp
qed

lemma QueryAll_chain:
  assumes "query_chain d tr req None ps final"
  shows "QueryAll d tr req =
     Some ((case final of
              Inl err \<Rightarrow> (None, Some (SdkError err))
            | Inr p \<Rightarrow> (Some (concat (map QueryOutput.Items (ps @ [p]))), None)),
           req\<lparr>QueryInput.ExclusiveStartKey := last (None # map QueryOutput.LastEvaluatedKey ps)\<rparr>,
           tr @ map (\<lambda>key. CallQuery (req\<lparr>QueryInput.ExclusiveStartKey := key\<rparr>))
                  (None # map QueryOutput.LastEvaluatedKey ps))"
  using QueryAll_loop_chain [OF assms, of "QueryInput.ExclusiveStartKey req" "[]"]
  by (simp add: QueryAll_def split: sum.splits)

lemma QueryAll_returns:
  assumes "QueryAll d tr req = Some (r, req', tr')"
  shows "\<exists>ps final. query_chain d tr req None ps final
     \<and> r = (case final of
              Inl err \<Rightarrow> (None, Some (SdkError err))
            | Inr p \<Rightarrow> (Some (concat (map QueryOutput.Items (ps @ [p]))), None))
     \<and> req' = req\<lparr>QueryInput.ExclusiveStartKey := last (None # map QueryOutput.LastEvaluatedKey ps)\<rparr>
     \<and> tr' = tr @ map (\<lambda>key. CallQuery (req\<lparr>QueryInput.ExclusiveStartKey := key\<rparr>))
                  (None # map QueryOutput.LastEvaluatedKey ps)"
proof -
  from QueryAll_loop_returns [OF assms [unfolded QueryAll_def]] obtain ps final where
    ch: "query_chain d tr req None ps final"
    and y: "(r, req', tr') =
      ((case final of
          Inl err \<Rightarrow> (None, Some (SdkError err))
        | Inr p \<Rightarrow> (Some ([] @ concat (map QueryOutput.Items ps) @ QueryOutput.Items p), None)),
       req\<lparr>QueryInput.ExclusiveStartKey := last (None # map QueryOutput.LastEvaluatedKey ps)\<rparr>,
       tr @ map (\<lambda>key. CallQuery (req\<lparr>QueryInput.ExclusiveStartKey := key\<rparr>))
              (None # map QueryOutput.LastEvaluatedKey ps))"
    by (elim exE conjE)
  from y have "r = (case final of
              Inl err \<Rightarrow> (None, Some (SdkError err))
            | Inr p \<Rightarrow> (Some (concat (map QueryOutput.Items (ps @ [p]))), None))"
    by (cases final) simp_all
  with ch y show ?thesis
    by (intro exI [of _ ps] exI [of _ final]) simp
qed

text \<open>
  Claim C8.  Whenever the client serves a chain of pages from the first request (no
  cursor) to a page without a cursor, each request carrying the cursor of the
  response before it, \<open>ScanAll\<close> and \<open>QueryAll\<close> return, and what they return is the
  concatenation of the items of all these pages in their order.  When a request of the
  chain fails they return that error and a nil list.  They return nothing else: every
  result comes from such a chain.
\<close>

theorem ScanAll_QueryAll_concatenate_pages:
  "(scan_chain d tr sreq None sps sfinal \<longrightarrow>
      (\<exists>sreq' tr'. ScanAll d tr sreq =
         Some ((case sfinal of
                  Inl err \<Rightarrow> (None, Some (SdkError err))
                | Inr p \<Rightarrow> (Some (concat (map ScanOutput.Items (sps @ [p]))), None)),
               sreq', tr')))
   \<and> (query_chain d tr qreq None qps qfinal \<longrightarrow>
      (\<exists>qreq' tr'. QueryAll d tr qreq =
         Some ((case qfinal of
                  Inl err \<Rightarrow> (None, Some (SdkError err))
                | Inr p \<Rightarrow> (Some (concat (map QueryOutput.Items (qps @ [p]))), None)),
               qreq', tr')))
   \<and> (\<forall>r sreq' tr'. ScanAll d tr sreq = Some (r, sreq', tr') \<longrightarrow>
        (\<exists>ps final. scan_chain d tr sreq None ps final
           \<and> r = (case final of
                    Inl err \<Rightarrow> (None, Some (SdkError err))
                  | Inr p \<Rightarrow> (Some (concat (map ScanOutput.Items (ps @ [p]))), None))))
   \<and> (\<forall>r qreq' tr'. QueryAll d tr qreq = Some (r, qreq', tr') \<longrightarrow>
        (\<exists>ps final. query_chain d tr qreq None ps final
           \<and> r = (case final of
                    Inl err \<Rightarrow> (None, Some (SdkError err))
                  | Inr p \<Rightarrow> (Some (concat (map QueryOutput.Items (ps @ [p]))), None))))"
proof (intro conjI impI allI)
  assume a: "scan_chain d tr sreq None sps sfinal"
  show "\<exists>sreq' tr'. ScanAll d tr sreq =
         Some ((case sfinal of
                  Inl err \<Rightarrow> (None, Some (SdkError err))
                | Inr p \<Rightarrow> (Some (concat (map ScanOutput.Items (sps @ [p]))), None)),
               sreq', tr')"
    by (insert ScanAll_chain [OF a], intro exI, assumption)
next
  assume a: "query_chain d tr qreq None qps qfinal"
  show "\<exists>qreq' tr'. QueryAll d tr qreq =
         Some ((case qfinal of
                  Inl err \<Rightarrow> (None, Some (SdkError err))
                | Inr p \<Rightarrow> (Some (concat (map QueryOutput.Items (qps @ [p]))), None)),
               qreq', tr')"
    by (insert QueryAll_chain [OF a], intro exI, assumption)
next
  fix r sreq' tr'
  assume a: "ScanAll d tr sreq = Some (r, sreq', tr')"
  show "\<exists>ps final. scan_chain d tr sreq None ps final
           \<and> r = (case final of
                    Inl err \<Rightarrow> (None, Some (SdkError err))
                  | Inr p \<Rightarrow> (Some (concat (map ScanOutput.Items (ps @ [p]))), None))"
    by (insert ScanAll_returns [OF a], elim exE conjE, intro exI conjI, assumption+)
next
  fix r qreq' tr'
  assume a: "QueryAll d tr qreq = Some (r, qreq', tr')"
  show "\<exists>ps final. query_chain d tr qreq None ps final
           \<and> r = (case final of
                    Inl err \<Rightarrow> (None, Some (SdkError err))
                  | Inr p \<Rightarrow> (Some (concat (map QueryOutput.Items (ps @ [p]))), None))"
    by (insert QueryAll_returns [OF a], elim exE conjE, intro exI conjI, assumption+)
qed

theorem ScanAll_QueryAll_concatenate_pages_witness:
  "scan_chain (table_client example_table []) [] example_scan None
      [\<lparr>ScanOutput.Items = [1, 2, 3], ScanOutput.LastEvaluatedKey = Some 3,
        ScanOutput.Count = 3\<rparr>]
      (Inr \<lparr>ScanOutput.Items = [4, 5, 6, 7, 8, 9, 10], ScanOutput.LastEvaluatedKey = None,
            ScanOutput.Count = 7\<rparr>)
   \<and> map_option fst (ScanAll (table_client example_table []) [] example_scan)
       = Some (Some [1, 2, 3, 4, 5, 6, 7, 8, 9, 10], None)
   \<and> query_chain (table_client example_table []) [] example_query None
      [\<lparr>QueryOutput.Items = [1, 2, 3], QueryOutput.LastEvaluatedKey = Some 3,
        QueryOutput.Count = 3\<rparr>]
      (Inr \<lparr>QueryOutput.Items = [4, 5, 6, 7, 8, 9, 10], QueryOutput.LastEvaluatedKey = None,
            QueryOutput.Count = 7\<rparr>)
   \<and> map_option fst (QueryAll (table_client example_table []) [] example_query)
       = Some (Some [1, 2, 3, 4, 5, 6, 7, 8, 9, 10], None)
   \<and> scan_chain (table_client example_table [1]) [] example_scan None
      [\<lparr>ScanOutput.Items = [1, 2, 3], ScanOutput.LastEvaluatedKey = Some 3,
        ScanOutput.Count = 3\<rparr>]
      (Inl ''InternalServerError'')
   \<and> map_option fst (ScanAll (table_client example_table [1]) [] example_scan)
       = Some (None, Some (SdkError ''InternalServerError''))
   \<and> query_chain (table_client example_table [1]) [] example_query None
      [\<lparr>QueryOutput.Items = [1, 2, 3], QueryOutput.LastEvaluatedKey = Some 3,
        QueryOutput.Count = 3\<rparr>]
      (Inl ''InternalServerError'')
   \<and> map_option fst (QueryAll (table_client example_table [1]) [] example_query)
       = Some (None, Some (SdkError ''InternalServerError''))"
proof -
  let ?d = "table_client example_table []" and ?f = "table_client example_table [1]"
  let ?s1 = "\<lparr>ScanOutput.Items = [1, 2, 3 :: nat], ScanOutput.LastEvaluatedKey = Some 3,
        ScanOutput.Count = 3\<rparr>"
  let ?s2 = "\<lparr>ScanOutput.Items = [4, 5, 6, 7, 8, 9, 10 :: nat],
        ScanOutput.LastEvaluatedKey = None, ScanOutput.Count = 7\<rparr>"
  let ?q1 = "\<lparr>QueryOutput.Items = [1, 2, 3 :: nat], QueryOutput.LastEvaluatedKey = Some 3,
        QueryOutput.Count = 3\<rparr>"
  let ?q2 = "\<lparr>QueryOutput.Items = [4, 5, 6, 7, 8, 9, 10 :: nat],
        QueryOutput.LastEvaluatedKey = None, QueryOutput.Count = 7\<rparr>"
  have s: "scan_chain ?d [] example_scan None [?s1] (Inr ?s2)"
    by (simp add: table_client_def table_Scan_def example_table_def example_scan_def)
  have q: "query_chain ?d [] example_query None [?q1] (Inr ?q2)"
    by (simp add: table_client_def table_Query_def example_table_def example_query_def
          SelectCount_def)
  have sf: "scan_chain ?f [] example_scan None [?s1] (Inl ''InternalServerError'')"
    by (simp add: table_client_def table_Scan_def example_table_def example_scan_def)
  have qf: "query_chain ?f [] example_query None [?q1] (Inl ''InternalServerError'')"
    by (simp add: table_client_def table_Query_def example_table_def example_query_def
          SelectCount_def)
  from s q sf qf
    ScanAll_QueryAll_concatenate_pages [of ?d "[]" example_scan "[?s1]" "Inr ?s2"
      example_query "[?q1]" "Inr ?q2"]
    ScanAll_QueryAll_concatenate_pages [of ?f "[]" example_scan "[?s1]"
      "Inl ''InternalServerError''" example_query "[?q1]" "Inl ''InternalServerError''"]
  show ?thesis
    by auto
qed

section \<open>Every step keeps what holds\<close>

text \<open>
  What holds of the start and is kept by every step holds after every schedule.  The
  lemmas below show, a goroutine and a program point at a time, that each step keeps
  \<open>all_inv\<close>.
\<close>

lemma run_invariant:
  assumes "P c" and "\<And>t c. P c \<Longrightarrow> P (step d t c)"
  shows "P (run d sched c)"
  using assms(1)
  by (induction sched arbitrary: c) (simp_all add: assms(2))

lemma frame_inv_step: "frame_inv ops c \<Longrightarrow> frame_inv ops (step d t c)"
  unfolding frame_inv_def step_def step_fetch_def step_count_def with_key_def
  by (cases t; cases "fetch c"; cases "count c")
     (auto simp: Let_def split: sum.splits prod.splits option.splits)

lemma fetch_goes_on_snoc:
  "fetch_goes_on l n (ps @ [p]) =
     (fetch_goes_on l n ps \<and> QueryOutput.LastEvaluatedKey p \<noteq> None
      \<and> int (n + length (concat (map QueryOutput.Items ps)) + length (QueryOutput.Items p)) < l)"
  by (induction ps arbitrary: n) (auto simp: add.assoc)

lemma fetch_goes_on_below:
  "fetch_goes_on l n ps \<Longrightarrow> ps \<noteq> [] \<Longrightarrow>
     int (n + length (concat (map QueryOutput.Items ps))) < l"
  by (induction ps arbitrary: n) (auto simp: add.assoc; force)+

lemma cursors_simps:
  "butlast (cursors (ps @ [p])) = cursors ps"
  "last (cursors (ps @ [p])) = QueryOutput.LastEvaluatedKey p"
  "cursors ps \<noteq> []"
  "butlast (cursors ps) @ [last (cursors ps)] = cursors ps"
  "cursors [] = [None]"
  "length (cursors ps) = Suc (length ps)"
  by (simp_all add: cursors_def butlast_append)

lemma step_fetch_loop:
  assumes "frame_inv ops c" "fetch_inv ops c" "fetch c = FetchLoop k items"
  shows "fetch_inv ops (step_fetch d c)"
  using assms
  by (auto simp: frame_inv_def fetch_inv_def fetch_ok_def step_fetch_def with_key_def)

lemma step_fetch_send:
  assumes "fetch_inv ops c" "fetch c = FetchSend err items"
  shows "fetch_inv ops (step_fetch d c)"
  using assms
  by (auto simp: fetch_inv_def fetch_ok_def fetch_sent_def step_fetch_def split: option.splits)

lemma step_fetch_skip:
  assumes "frame_inv ops c" "fetch_inv ops c" "fetch c = FetchSkip items"
  shows "fetch_inv ops (step_fetch d c)"
  using assms
  by (auto simp: frame_inv_def fetch_inv_def fetch_ok_def fetch_sent_def step_fetch_def split: option.splits)

lemma take_budget:
  "int (length xs) \<le> l \<Longrightarrow>
     xs @ take (nat (l - int (length xs))) ys = take (nat l) (xs @ ys)"
  by (simp add: nat_diff_distrib')

lemma step_fetch_query:
  assumes fr: "frame_inv ops c" and inv: "fetch_inv ops c" and st: "fetch c = FetchQuery items"
  shows "fetch_inv ops (step_fetch d c)"
proof -
  let ?l = "PaginationOps.Limit ops"
  from fr have lim: "PaginationOps.Limit (input c) = ?l"
    by (auto simp: frame_inv_def)
  from inv st obtain pages where
    ans: "map snd (fetch_log c) = map Inr pages"
    and reqs: "map fst (fetch_log c) = map (with_key ops) (butlast (cursors pages))"
    and key: "QueryInput (input c) = with_key ops (last (cursors pages))"
    and go: "fetch_goes_on ?l 0 pages"
    and items: "items = concat (map QueryOutput.Items pages)"
    by (auto simp: fetch_inv_def fetch_ok_def)
  let ?req = "QueryInput (input c)"
  let ?answer = "client_Query d (calls c) ?req"
  let ?c1 = "c\<lparr>calls := calls c @ [CallQuery ?req],
               fetch_log := fetch_log c @ [(?req, ?answer)]\<rparr>"
  have reqs': "map fst (fetch_log ?c1) = map (with_key ops) (cursors pages)"
  proof -
    have "map fst (fetch_log ?c1)
            = map (with_key ops) (butlast (cursors pages) @ [last (cursors pages)])"
      using reqs key by simp
    then show ?thesis by (simp only: cursors_simps)
  qed
  show ?thesis
  proof (cases ?answer)
    case (Inl msg)
    then have step: "step_fetch d c =
        ?c1\<lparr>fetch := FetchSend (Some (Errorf ''error querying dynamo'' (SdkError msg))) items\<rparr>"
      using st by (simp add: step_fetch_def Let_def)
    have "map snd (fetch_log ?c1) = map Inr pages @ [Inl msg]"
      using ans Inl by simp
    with reqs' key go items show ?thesis
      unfolding step by (simp add: fetch_inv_def fetch_ok_def fetch_sent_def)
  next
    case (Inr p)
    let ?ps = "pages @ [p]"
    let ?n = "int (length (QueryOutput.Items p)) + int (length items)"
    have ans': "map snd (fetch_log ?c1) = map Inr ?ps"
      using ans Inr by simp
    have reqs'': "map fst (fetch_log ?c1) = map (with_key ops) (butlast (cursors ?ps))"
      using reqs' by (simp only: cursors_simps)
    have key': "QueryInput (input ?c1) = with_key ops (last (butlast (cursors ?ps)))"
      using key by (simp add: cursors_simps)
    have total: "concat (map QueryOutput.Items ?ps) = items @ QueryOutput.Items p"
      using items by simp
    show ?thesis
    proof (cases "?l < int (length items)")
      case True
      have empty: "pages = []"
        using True go items fetch_goes_on_below [of ?l 0 pages] by auto
      with True items have neg: "?l < 0" by simp
      with True Inr st lim have step: "step_fetch d c = ?c1\<lparr>fetch := FetchPanic\<rparr>"
        by (simp add: step_fetch_def Let_def)
      have "\<exists>ps. map snd (fetch_log ?c1) = map Inr ps
             \<and> map fst (fetch_log ?c1) = map (with_key ops) (butlast (cursors ps))
             \<and> (?l < 0 \<and> length ps = 1
                 \<or> 0 \<le> ?l \<and> PaginationOps.Skip ops < 0 \<and> fetch_stops ?l ps)"
        using ans' reqs'' neg empty by (intro exI [of _ ?ps]) simp
      then show ?thesis
        unfolding step by (simp add: fetch_inv_def fetch_ok_def)
    next
      case False
      then have within: "int (length items) \<le> ?l" by simp
      then have nonneg: "0 \<le> ?l" by linarith
      show ?thesis
      proof (cases "?n > ?l")
        case True
        let ?items1 = "items @ take (nat (?l - int (length items))) (QueryOutput.Items p)"
        have trunc: "?items1 = take (nat ?l) (concat (map QueryOutput.Items ?ps))"
          using within total by (simp add: take_budget)
        have full: "int (length ?items1) = ?l"
          using True within by simp
        have step: "step_fetch d c = ?c1\<lparr>fetch := FetchSkip ?items1\<rparr>"
          using st Inr True within lim full by (simp add: step_fetch_def Let_def)
        have stops: "fetch_stops ?l ?ps"
          using go True total by (simp add: fetch_stops_def)
        have "\<exists>ps. map snd (fetch_log ?c1) = map Inr ps
             \<and> map fst (fetch_log ?c1) = map (with_key ops) (butlast (cursors ps))
             \<and> QueryInput (input ?c1) = with_key ops (last (butlast (cursors ps)))
             \<and> fetch_stops ?l ps \<and> 0 \<le> ?l
             \<and> ?items1 = take (nat ?l) (concat (map QueryOutput.Items ps))"
          using ans' reqs'' key' stops nonneg trunc by blast
        then show ?thesis
          unfolding step by (simp add: fetch_inv_def fetch_ok_def)
      next
        case False
        then have fits: "?n \<le> ?l" by simp
        let ?items1 = "items @ QueryOutput.Items p"
        have all: "?items1 = take (nat ?l) (concat (map QueryOutput.Items ?ps))"
          using fits total by simp
        show ?thesis
        proof (cases "QueryOutput.LastEvaluatedKey p = None \<or> ?n \<ge> ?l")
          case True
          have step: "step_fetch d c = ?c1\<lparr>fetch := FetchSkip ?items1\<rparr>"
            using st Inr True False lim by (auto simp: step_fetch_def Let_def)
          have stops: "fetch_stops ?l ?ps"
            using True go total by (auto simp: fetch_stops_def)
          have "\<exists>ps. map snd (fetch_log ?c1) = map Inr ps
             \<and> map fst (fetch_log ?c1) = map (with_key ops) (butlast (cursors ps))
             \<and> QueryInput (input ?c1) = with_key ops (last (butlast (cursors ps)))
             \<and> fetch_stops ?l ps \<and> 0 \<le> ?l
             \<and> ?items1 = take (nat ?l) (concat (map QueryOutput.Items ps))"
            using ans' reqs'' key' stops nonneg all by blast
          then show ?thesis
            unfolding step by (simp add: fetch_inv_def fetch_ok_def)
        next
          case stop: False
          have step: "step_fetch d c =
              ?c1\<lparr>fetch := FetchLoop (QueryOutput.LastEvaluatedKey p) ?items1\<rparr>"
            using st Inr stop False lim by (auto simp: step_fetch_def Let_def)
          have goes: "fetch_goes_on ?l 0 ?ps"
            using stop go items by (simp add: fetch_goes_on_snoc)
          have "\<exists>ps. map snd (fetch_log ?c1) = map Inr ps
             \<and> map fst (fetch_log ?c1) = map (with_key ops) (butlast (cursors ps))
             \<and> QueryInput (input ?c1) =
                 (if ps = [] then QueryInput ops
                  else with_key ops (last (butlast (cursors ps))))
             \<and> fetch_goes_on ?l 0 ps
             \<and> ?items1 = concat (map QueryOutput.Items ps)
             \<and> QueryOutput.LastEvaluatedKey p = last (cursors ps)"
            using ans' reqs'' key' goes total
            by (intro exI [of _ ?ps]) (simp only: cursors_simps, simp)
          then show ?thesis
            unfolding step by (simp add: fetch_inv_def fetch_ok_def)
        qed
      qed
    qed
  qed
qed

lemma step_count_fetch:
  "fetch (step_count d c) = fetch c" "fetch_log (step_count d c) = fetch_log c"
  "input (step_count d c) = input c"
  by (auto simp: step_count_def split: count_state.splits prod.splits option.splits)

lemma step_fetch_count:
  "count (step_fetch d c) = count c" "count_log (step_fetch d c) = count_log c"
  by (cases "fetch c"; simp add: step_fetch_def Let_def split: sum.splits)+

lemma step_fetch_input:
  "input (step_fetch d c) =
     (case fetch c of
        FetchLoop k items \<Rightarrow>
          (input c)\<lparr>QueryInput := (QueryInput (input c))\<lparr>QueryInput.ExclusiveStartKey := k\<rparr>\<rparr>
      | _ \<Rightarrow> input c)"
  by (cases "fetch c"; simp add: step_fetch_def Let_def split: sum.splits)

lemma step_fetch_log:
  "fetch_log (step_fetch d c) =
     (case fetch c of
        FetchQuery items \<Rightarrow>
          fetch_log c @ [(QueryInput (input c), client_Query d (calls c) (QueryInput (input c)))]
      | _ \<Rightarrow> fetch_log c)"
  by (cases "fetch c"; simp add: step_fetch_def Let_def split: sum.splits)

lemma step_fetch_calls:
  "calls (step_fetch d c) =
     (case fetch c of
        FetchQuery items \<Rightarrow> calls c @ [CallQuery (QueryInput (input c))]
      | _ \<Rightarrow> calls c)"
  by (cases "fetch c"; simp add: step_fetch_def Let_def split: sum.splits)

lemma step_fetch_errs:
  "errs (step_fetch d c) =
     (case fetch c of
        FetchSend (Some e) items \<Rightarrow> errs c @ [e]
      | _ \<Rightarrow> errs c)"
  by (cases "fetch c"; simp add: step_fetch_def Let_def split: sum.splits option.splits)

lemma step_fetch_at_query:
  "(\<exists>items. fetch (step_fetch d c) = FetchQuery items) \<longleftrightarrow> (\<exists>k items. fetch c = FetchLoop k items)"
  by (cases "fetch c"; simp add: step_fetch_def Let_def split: sum.splits)

lemma step_count_log:
  "count_log (step_count d c) =
     (case count c of
        CountCall copy \<Rightarrow>
          count_log c @ [(copy\<lparr>Select := SelectCount\<rparr>,
                          client_Query d (calls c) (copy\<lparr>Select := SelectCount\<rparr>))]
      | _ \<Rightarrow> count_log c)"
  by (cases "count c"; simp add: step_count_def split: prod.splits option.splits)

lemma step_count_calls:
  "calls (step_count d c) =
     (case count c of
        CountCall copy \<Rightarrow> calls c @ [CallQuery (copy\<lparr>Select := SelectCount\<rparr>)]
      | _ \<Rightarrow> calls c)"
  by (cases "count c";
      auto simp add: step_count_def GetQueryCount_def Let_def Select_update_same
           split: prod.splits option.splits sum.splits)

lemma step_count_errs:
  "errs (step_count d c) =
     (case count c of
        CountSend (Some e) n \<Rightarrow> errs c @ [e]
      | _ \<Rightarrow> errs c)"
  by (cases "count c"; simp add: step_count_def split: prod.splits option.splits)

lemma step_count_count:
  "count (step_count d c) =
     (case count c of
        CountCopy \<Rightarrow> CountCall (QueryInput (input c))
      | CountCall copy \<Rightarrow>
          (case client_Query d (calls c) (copy\<lparr>Select := SelectCount\<rparr>) of
             Inl msg \<Rightarrow> CountSend (Some (Errorf ''error getting query count'' (SdkError msg))) 0
           | Inr output \<Rightarrow> CountSend None (sint (QueryOutput.Count output)))
      | CountSend err n \<Rightarrow> CountDone err n
      | CountDone err n \<Rightarrow> CountDone err n)"
  by (cases "count c";
      auto simp add: step_count_def GetQueryCount_def Let_def Select_update_same
           split: prod.splits option.splits sum.splits)

lemma fetch_inv_cong:
  "fetch c' = fetch c \<Longrightarrow> fetch_log c' = fetch_log c \<Longrightarrow> input c' = input c \<Longrightarrow>
     fetch_inv ops c' = fetch_inv ops c"
  by (simp add: fetch_inv_def)

lemma fetch_inv_step:
  assumes "frame_inv ops c" "fetch_inv ops c"
  shows "fetch_inv ops (step d t c)"
proof (cases "fetch c = FetchPanic")
  case True
  with assms show ?thesis by (simp add: step_def)
next
  case False
  show ?thesis
  proof (cases t)
    case CountTask
    with assms(2) False show ?thesis
      by (simp add: step_def fetch_inv_cong [OF step_count_fetch])
  next
    case FetchTask
    then have s: "step d t c = step_fetch d c"
      using False by (simp add: step_def)
    have "fetch_inv ops (step_fetch d c)"
    proof (cases "fetch c")
      case (FetchLoop k items)
      with assms show ?thesis by (rule step_fetch_loop)
    next
      case (FetchQuery items)
      with assms show ?thesis by (rule step_fetch_query)
    next
      case (FetchSkip items)
      with assms show ?thesis by (rule step_fetch_skip)
    next
      case (FetchSend err items)
      with assms(2) show ?thesis by (rule step_fetch_send)
    next
      case (FetchDone err items)
      with assms(2) show ?thesis by (simp add: step_fetch_def)
    next
      case FetchPanic
      with False show ?thesis by simp
    qed
    then show ?thesis by (simp add: s)
  qed
qed

lemma calls_inv_step: "calls_inv tr c \<Longrightarrow> calls_inv tr (step d t c)"
  unfolding calls_inv_def step_def
  by (cases t; cases "fetch c"; cases "count c")
     (simp_all add: step_fetch_calls step_fetch_log step_fetch_count
        step_count_calls step_count_log step_count_fetch)

lemma step_fetch_error:
  "fetch_error (step_fetch d c) =
     (case fetch c of FetchSend (Some e) items \<Rightarrow> [e] | _ \<Rightarrow> fetch_error c)"
  by (cases "fetch c";
      simp add: fetch_error_def step_fetch_def Let_def split: sum.splits option.splits)

lemma step_count_error:
  "count_error (step_count d c) =
     (case count c of CountSend (Some e) n \<Rightarrow> [e] | _ \<Rightarrow> count_error c)"
  by (cases "count c";
      simp add: count_error_def step_count_count split: sum.splits option.splits)

lemma fetch_error_cong: "fetch c' = fetch c \<Longrightarrow> fetch_error c' = fetch_error c"
  by (simp add: fetch_error_def)

lemma count_error_cong: "count c' = count c \<Longrightarrow> count_error c' = count_error c"
  by (simp add: count_error_def)

lemma errs_inv_step:
  assumes "errs_inv c"
  shows "errs_inv (step d t c)"
proof (cases "fetch c = FetchPanic")
  case True
  with assms show ?thesis by (simp add: step_def)
next
  case False
  show ?thesis
  proof (cases t)
    case FetchTask
    have "errs_inv (step_fetch d c)"
      using assms
      by (cases "fetch c";
          simp add: errs_inv_def step_fetch_error step_fetch_errs
            count_error_cong [OF step_fetch_count(1)] split: option.splits;
          auto simp: fetch_error_def)
    with False FetchTask show ?thesis by (simp add: step_def)
  next
    case CountTask
    have "errs_inv (step_count d c)"
      using assms
      by (cases "count c";
          simp add: errs_inv_def step_count_error step_count_errs
            fetch_error_cong [OF step_count_fetch(1)] split: option.splits;
          auto simp: count_error_def)
    with False CountTask show ?thesis by (simp add: step_def)
  qed
qed

lemma copied_key_step:
  assumes "copied_key ops c k"
  shows "copied_key ops (step d t c) k"
proof (cases "fetch c = FetchPanic")
  case True
  with assms show ?thesis by (simp add: step_def)
next
  case False
  show ?thesis
  proof (cases t)
    case FetchTask
    have "copied_key ops (step_fetch d c) k"
      using assms step_fetch_at_query [of d c]
      by (cases "fetch c")
         (auto simp: copied_key_def step_fetch_log step_fetch_input)
    with False FetchTask show ?thesis by (simp add: step_def)
  next
    case CountTask
    with assms False show ?thesis
      by (simp add: step_def copied_key_def step_count_fetch)
  qed
qed

lemma key_inv_step:
  assumes "key_inv ops c"
  shows "key_inv ops (step d t c)"
proof (cases "\<exists>k items. fetch c = FetchLoop k items \<and> t = FetchTask")
  case True
  then obtain k items where st: "fetch c = FetchLoop k items" and t: "t = FetchTask" by blast
  then have "step d t c = step_fetch d c" by (simp add: step_def)
  moreover have "\<exists>items. fetch (step_fetch d c) = FetchQuery items"
    using st by (simp add: step_fetch_at_query)
  ultimately show ?thesis
    by (simp add: key_inv_def copied_key_def)
next
  case False
  have "input (step d t c) = input c"
    using False
    by (cases t; cases "fetch c") (simp_all add: step_def step_fetch_input step_count_fetch)
  with copied_key_step [OF assms [unfolded key_inv_def]] show ?thesis
    by (simp add: key_inv_def)
qed

lemma counted_mono:
  assumes "counted ops c err n"
    and "\<And>k. copied_key ops c k \<Longrightarrow> copied_key ops c' k"
    and "count_log c' = count_log c"
  shows "counted ops c' err n"
proof -
  from assms(1) obtain k answer where
    "count_log c = [((with_key ops k)\<lparr>Select := SelectCount\<rparr>, answer)]"
    "copied_key ops c k"
    "case answer of
       Inl msg \<Rightarrow> err = Some (Errorf ''error getting query count'' (SdkError msg)) \<and> n = 0
     | Inr output \<Rightarrow> err = None \<and> n = sint (QueryOutput.Count output)"
    unfolding counted_def by blast
  with assms(2,3) show ?thesis
    unfolding counted_def by (intro exI [of _ k] exI [of _ answer]) simp
qed

lemma count_inv_step:
  assumes fr: "frame_inv ops c" and key: "key_inv ops c" and inv: "count_inv ops c"
  shows "count_inv ops (step d t c)"
proof (cases "fetch c = FetchPanic")
  case True
  with inv show ?thesis by (simp add: step_def)
next
  case False
  have mono: "\<And>k. copied_key ops c k \<Longrightarrow> copied_key ops (step d t c) k"
    by (rule copied_key_step)
  show ?thesis
  proof (cases t)
    case FetchTask
    then have s: "step d t c = step_fetch d c" using False by (simp add: step_def)
    have mono': "\<And>k. copied_key ops c k \<Longrightarrow> copied_key ops (step_fetch d c) k"
      using mono by (simp add: s)
    show ?thesis
    proof (cases "count c")
      case CountCopy
      with inv show ?thesis by (simp add: s count_inv_def step_fetch_count)
    next
      case (CountCall copy)
      with inv mono show ?thesis by (auto simp: s count_inv_def step_fetch_count)
    next
      case (CountSend err n)
      with inv have "counted ops c err n" by (simp add: count_inv_def)
      then have "counted ops (step_fetch d c) err n"
        by (rule counted_mono [OF _ mono']) (simp_all add: step_fetch_count)
      with CountSend show ?thesis by (simp add: s count_inv_def step_fetch_count)
    next
      case (CountDone err n)
      with inv have "counted ops c err n" by (simp add: count_inv_def)
      then have "counted ops (step_fetch d c) err n"
        by (rule counted_mono [OF _ mono']) (simp_all add: step_fetch_count)
      with CountDone show ?thesis by (simp add: s count_inv_def step_fetch_count)
    qed
  next
    case CountTask
    then have s: "step d t c = step_count d c" using False by (simp add: step_def)
    have mono': "\<And>k. copied_key ops c k \<Longrightarrow> copied_key ops (step_count d c) k"
      using mono by (simp add: s)
    show ?thesis
    proof (cases "count c")
      case CountCopy
      from fr obtain k0 where k0: "input c = ops\<lparr>QueryInput := with_key ops k0\<rparr>"
        by (auto simp: frame_inv_def)
      then have q: "QueryInput (input c) = with_key ops k0" by simp
      with key have "copied_key ops c k0"
        by (simp add: key_inv_def with_key_def)
      then have "copied_key ops (step_count d c) k0"
        using mono s by simp
      with CountCopy inv q show ?thesis
        by (auto simp: s count_inv_def step_count_count step_count_log)
    next
      case (CountCall copy)
      with inv obtain k where k: "copy = with_key ops k" "copied_key ops c k" "count_log c = []"
        by (auto simp: count_inv_def)
      then have "copied_key ops (step_count d c) k"
        using mono s by simp
      with CountCall k show ?thesis
        by (cases "client_Query d (calls c) (copy\<lparr>Select := SelectCount\<rparr>)")
           (auto simp: s count_inv_def counted_def step_count_count step_count_log)
    next
      case (CountSend err n)
      with inv have "counted ops c err n" by (simp add: count_inv_def)
      then have "counted ops (step_count d c) err n"
        by (rule counted_mono [OF _ mono']) (simp_all add: step_count_log CountSend)
      with CountSend show ?thesis by (simp add: s count_inv_def step_count_count)
    next
      case (CountDone err n)
      with inv have "counted ops c err n" by (simp add: count_inv_def)
      then have "counted ops (step_count d c) err n"
        by (rule counted_mono [OF _ mono']) (simp_all add: step_count_log CountDone)
      with CountDone show ?thesis by (simp add: s count_inv_def step_count_count)
    qed
  qed
qed

lemma all_inv_start: "all_inv ops tr (start tr ops)"
  by (simp add: all_inv_def start_def frame_inv_def fetch_inv_def fetch_ok_def key_inv_def
        copied_key_def count_inv_def errs_inv_def fetch_error_def count_error_def calls_inv_def
        with_key_def cursors_def exI [of _ "QueryInput.ExclusiveStartKey (QueryInput ops)"])

lemma all_inv_step: "all_inv ops tr c \<Longrightarrow> all_inv ops tr (step d t c)"
  by (simp add: all_inv_def frame_inv_step fetch_inv_step key_inv_step count_inv_step
        errs_inv_step calls_inv_step)

lemma all_inv_run: "all_inv ops tr (run d sched (start tr ops))"
  by (rule run_invariant [where P = "all_inv ops tr"]) (simp_all add: all_inv_start all_inv_step)

lemma finish_Returned:
  assumes "finish c = Some (Returned (r, ops', tr'))"
  obtains ferr items cerr n where
    "fetch c = FetchDone ferr items" "count c = CountDone cerr n"
    "ops' = input c" "tr' = calls c"
    "r = (if errs c \<noteq> [] then (None, Some (Join (errs c)))
          else (Some \<lparr>PaginatedResults.Items = items,
                      PaginatedResults.Skip = PaginationOps.Skip (input c),
                      PaginatedResults.Limit = PaginationOps.Limit (input c),
                      PaginatedResults.Count = n\<rparr>, None))"
  using assms
  by (auto simp: finish_def split: fetch_state.splits count_state.splits if_splits)

lemma finish_Panicked: "finish c = Some Panicked \<longleftrightarrow> fetch c = FetchPanic"
  by (auto simp: finish_def split: fetch_state.splits count_state.splits)

lemma step_fetch_taken:
  assumes "\<not> fetch_ended (fetch c)"
  shows "fetch (step_fetch d c) = FetchPanic
     \<or> fetch_taken (step_fetch d c) = Suc (fetch_taken c)"
proof (cases "fetch c")
  case (FetchQuery items)
  then show ?thesis
    by (cases "client_Query d (calls c) (QueryInput (input c))")
       (auto simp: fetch_taken_def step_fetch_def Let_def)
next
  case (FetchSend err items)
  then show ?thesis
    by (cases err) (auto simp: fetch_taken_def step_fetch_def)
qed (use assms in \<open>auto simp: fetch_taken_def step_fetch_def\<close>)

lemma run_ended:
  "fetch_ended (fetch c) \<Longrightarrow> fetch (run d sched c) = fetch c"
proof (induction sched arbitrary: c)
  case Nil
  then show ?case by simp
next
  case (Cons t sched)
  from Cons.prems have "fetch (step d t c) = fetch c"
    by (cases t; cases "fetch c") (simp_all add: step_def step_fetch_def step_count_fetch)
  with Cons show ?case by simp
qed

lemma run_taken:
  "fetch_ended (fetch (run d sched c))
     \<or> fetch_taken (run d sched c) = fetch_taken c + count_list sched FetchTask"
proof (induction sched arbitrary: c)
  case Nil
  then show ?case by simp
next
  case (Cons t sched)
  show ?case
  proof (cases "fetch_ended (fetch c)")
    case True
    then show ?thesis using run_ended [OF True, of d "t # sched"] by simp
  next
    case False
    then have np: "fetch c \<noteq> FetchPanic" by auto
    show ?thesis
    proof (cases t)
      case FetchTask
      have st: "step d FetchTask c = step_fetch d c" using np by (simp add: step_def)
      from step_fetch_taken [OF False, of d] show ?thesis
      proof
        assume "fetch (step_fetch d c) = FetchPanic"
        then have "fetch_ended (fetch (step_fetch d c))" by simp
        from run_ended [OF this, of d sched] this show ?thesis
          by (simp add: FetchTask st)
      next
        assume "fetch_taken (step_fetch d c) = Suc (fetch_taken c)"
        with Cons.IH [of "step_fetch d c"] show ?thesis
          by (auto simp: FetchTask st)
      qed
    next
      case CountTask
      have st: "step d CountTask c = step_count d c" using np by (simp add: step_def)
      have "fetch_taken (step_count d c) = fetch_taken c"
        by (simp add: fetch_taken_def step_count_fetch)
      with Cons.IH [of "step_count d c"] show ?thesis
        by (auto simp: CountTask st)
    qed
  qed
qed

lemma step_count_left:
  "count_left (count (step_count d c)) = count_left (count c) - 1"
  by (cases "count c"; simp add: step_count_count split: sum.splits)

lemma run_count_left:
  "fetch (run d sched c) = FetchPanic
     \<or> count_left (count (run d sched c)) \<le> count_left (count c) - count_list sched CountTask"
proof (induction sched arbitrary: c)
  case Nil
  then show ?case by simp
next
  case (Cons t sched)
  show ?case
  proof (cases "fetch c = FetchPanic")
    case True
    then have "fetch_ended (fetch c)" by simp
    from run_ended [OF this, of d "t # sched"] True show ?thesis by simp
  next
    case False
    show ?thesis
    proof (cases t)
      case FetchTask
      have st: "step d FetchTask c = step_fetch d c" using False by (simp add: step_def)
      from Cons.IH [of "step_fetch d c"] show ?thesis
        by (auto simp: FetchTask st step_fetch_count)
    next
      case CountTask
      have st: "step d CountTask c = step_count d c" using False by (simp add: step_def)
      from Cons.IH [of "step_count d c"] show ?thesis
        unfolding CountTask by (simp add: st step_count_left)
    qed
  qed
qed

lemma answered_step: "answered d c \<Longrightarrow> answered d (step d t c)"
proof (cases "fetch c = FetchPanic")
  case True
  assume "answered d c"
  with True show ?thesis by (simp add: step_def)
next
  case False
  assume a: "answered d c"
  show ?thesis
  proof (cases t)
    case FetchTask
    have "answered d (step_fetch d c)"
      using a by (cases "fetch c") (auto simp: answered_def step_fetch_log step_fetch_count)
    with False FetchTask show ?thesis by (simp add: step_def)
  next
    case CountTask
    have "answered d (step_count d c)"
      using a by (cases "count c") (auto simp: answered_def step_count_log step_count_fetch)
    with False CountTask show ?thesis by (simp add: step_def)
  qed
qed

lemma answeredD:
  assumes "answered d c" and "(req, answer) \<in> set (fetch_log c) \<union> set (count_log c)"
  shows "\<exists>tr. answer = client_Query d tr req"
proof -
  from assms have "case (req, answer) of (req, answer) \<Rightarrow> \<exists>tr. answer = client_Query d tr req"
    unfolding answered_def by (rule bspec)
  then show ?thesis by simp
qed

lemma answered_start: "answered d (start tr ops)"
  by (simp add: answered_def start_def)

lemma answered_run: "answered d (run d sched (start tr ops))"
proof (rule run_invariant [where P = "answered d"])
  show "answered d (start tr ops)" by (rule answered_start)
next
  fix t c
  assume "answered d c"
  then show "answered d (step d t c)" by (rule answered_step)
qed

section \<open>How many steps the fetching goroutine can take\<close>

lemma fetch_taken_bound:
  assumes inv: "fetch_inv ops c" and ne: "\<not> fetch_ended (fetch c)"
    and B: "\<And>pages. fetch_goes_on (PaginationOps.Limit ops) 0 pages \<Longrightarrow>
              set (map Inr pages) \<subseteq> set (map snd (fetch_log c)) \<Longrightarrow> length pages \<le> b"
  shows "fetch_taken c \<le> 2 * b + 3"
proof -
  have going: "length (fetch_log c) \<le> b"
    if "map snd (fetch_log c) = map Inr pages"
       "fetch_goes_on (PaginationOps.Limit ops) 0 pages" for pages
  proof -
    from that B [of pages] have "length pages \<le> b" by simp
    moreover from that(1) have "length (fetch_log c) = length pages" by (metis length_map)
    ultimately show ?thesis by simp
  qed
  have stopped: "length (fetch_log c) \<le> b + 1"
    if "map snd (fetch_log c) = map Inr pages"
       "fetch_stops (PaginationOps.Limit ops) pages" for pages
  proof -
    from that(2) have g: "fetch_goes_on (PaginationOps.Limit ops) 0 (butlast pages)"
      by (simp add: fetch_stops_def)
    have "set (map Inr (butlast pages)) \<subseteq> set (map snd (fetch_log c))"
      unfolding that(1) by (auto dest: in_set_butlastD)
    from B [OF g this] have "length pages \<le> b + 1" by simp
    moreover from that(1) have "length (fetch_log c) = length pages" by (metis length_map)
    ultimately show ?thesis by simp
  qed
  have failed: "length (fetch_log c) \<le> b + 1"
    if "map snd (fetch_log c) = map Inr pages @ [Inl msg]"
       "fetch_goes_on (PaginationOps.Limit ops) 0 pages" for pages msg
  proof -
    have "set (map Inr pages) \<subseteq> set (map snd (fetch_log c))"
      unfolding that(1) by auto
    from B [OF that(2) this] have "length pages \<le> b" .
    moreover from that(1) have "length (fetch_log c) = length pages + 1"
      by (metis length_map length_append_singleton Suc_eq_plus1)
    ultimately show ?thesis by simp
  qed
  show ?thesis
  proof (cases "fetch c")
    case (FetchLoop k items)
    with inv going show ?thesis
      by (fastforce simp: fetch_inv_def fetch_ok_def fetch_taken_def)
  next
    case (FetchQuery items)
    with inv going show ?thesis
      by (fastforce simp: fetch_inv_def fetch_ok_def fetch_taken_def)
  next
    case (FetchSkip items)
    with inv stopped show ?thesis
      by (fastforce simp: fetch_inv_def fetch_ok_def fetch_taken_def)
  next
    case (FetchSend err items)
    show ?thesis
    proof (cases err)
      case None
      with FetchSend inv stopped show ?thesis
        by (fastforce simp: fetch_inv_def fetch_ok_def fetch_sent_def fetch_taken_def)
    next
      case (Some e)
      with FetchSend inv failed show ?thesis
        by (fastforce simp: fetch_inv_def fetch_ok_def fetch_sent_def fetch_taken_def)
    qed
  next
    case (FetchDone err items)
    with ne show ?thesis by simp
  next
    case FetchPanic
    with ne show ?thesis by simp
  qed
qed

lemma fetch_goes_on_length:
  assumes "fetch_goes_on l n pages"
    and "\<forall>p \<in> set pages. QueryOutput.LastEvaluatedKey p \<noteq> None \<longrightarrow> QueryOutput.Items p \<noteq> []"
  shows "length pages \<le> length (concat (map QueryOutput.Items pages))"
  using assms
proof (induction pages arbitrary: n)
  case Nil
  then show ?case by simp
next
  case (Cons p ps)
  then have "QueryOutput.Items p \<noteq> []" by simp
  then have "1 \<le> length (QueryOutput.Items p)" by (cases "QueryOutput.Items p") simp_all
  moreover from Cons.prems
  have "length ps \<le> length (concat (map QueryOutput.Items ps))"
    by (intro Cons.IH [of "n + length (QueryOutput.Items p)"]) simp_all
  ultimately show ?case by simp
qed

lemma pages_bound:
  assumes a: "answered d c" and h: "pages_not_empty d"
    and g: "fetch_goes_on l 0 pages"
    and sub: "set (map Inr pages) \<subseteq> set (map snd (fetch_log c))"
  shows "length pages \<le> nat l - 1"
proof (cases "pages = []")
  case True
  then show ?thesis by simp
next
  case False
  have "\<forall>p \<in> set pages. QueryOutput.LastEvaluatedKey p \<noteq> None \<longrightarrow> QueryOutput.Items p \<noteq> []"
  proof (intro ballI impI)
    fix p assume "p \<in> set pages" and k: "QueryOutput.LastEvaluatedKey p \<noteq> None"
    with sub have "Inr p \<in> set (map snd (fetch_log c))" by auto
    then obtain req where "(req, Inr p) \<in> set (fetch_log c)" by auto
    with answeredD [OF a] obtain tr' where "Inr p = client_Query d tr' req"
      by blast
    with h k show "QueryOutput.Items p \<noteq> []"
      unfolding pages_not_empty_def by metis
  qed
  from fetch_goes_on_length [OF g this]
  have "length pages \<le> length (concat (map QueryOutput.Items pages))" .
  moreover from fetch_goes_on_below [OF g False]
  have "int (length (concat (map QueryOutput.Items pages))) < l" by simp
  ultimately show ?thesis by simp
qed

section \<open>When the call returns\<close>

lemma run_no_panic:
  assumes "0 \<le> PaginationOps.Skip ops" and "0 \<le> PaginationOps.Limit ops"
  shows "fetch (run d sched (start tr ops)) \<noteq> FetchPanic"
proof -
  have "fetch_inv ops (run d sched (start tr ops))"
    using all_inv_run [of ops tr d sched] by (simp add: all_inv_def)
  with assms show ?thesis by (auto simp: fetch_inv_def fetch_ok_def)
qed

lemma run_fetch_taken:
  assumes "\<not> fetch_ended (fetch (run d sched (start tr ops)))"
  shows "fetch_taken (run d sched (start tr ops)) = count_list sched FetchTask"
  using run_taken [of d sched "start tr ops"] assms
  by (simp add: fetch_taken_def start_def)

lemma run_count_done:
  assumes "fetch (run d sched (start tr ops)) \<noteq> FetchPanic"
    and "3 \<le> count_list sched CountTask"
  shows "\<exists>err n. count (run d sched (start tr ops)) = CountDone err n"
proof -
  from run_count_left [of d sched "start tr ops"] assms
  have "count_left (count (run d sched (start tr ops))) = 0"
    by (simp add: start_def)
  then show ?thesis by (cases "count (run d sched (start tr ops))") simp_all
qed

lemma run_count_log:
  assumes "fetch (run d sched (start tr ops)) \<noteq> FetchPanic"
    and "3 \<le> count_list sched CountTask"
  shows "\<exists>k answer. count_log (run d sched (start tr ops))
           = [((with_key ops k)\<lparr>Select := SelectCount\<rparr>, answer)]"
proof -
  let ?c = "run d sched (start tr ops)"
  from run_count_done [OF assms] obtain err n where "count ?c = CountDone err n" by blast
  moreover have "count_inv ops ?c"
    using all_inv_run [of ops tr d sched] by (simp add: all_inv_def)
  ultimately show ?thesis by (auto simp: count_inv_def counted_def)
qed

lemma fetch_taken_at_le: "\<not> fetch_ended st \<Longrightarrow> fetch_taken_at st n \<le> 2 * n + 1"
  by (cases "(st, n)" rule: fetch_taken_at.cases) simp_all

lemma finish_returns:
  assumes "fetch c = FetchDone ferr items" and "count c = CountDone cerr n"
  shows "\<exists>r. finish c = Some (Returned (r, input c, calls c))"
  using assms by (simp add: finish_def)

lemma finish_None:
  assumes "finish c = None"
  shows "\<not> fetch_ended (fetch c) \<or> 0 < count_left (count c)"
  using assms
  by (cases "fetch c"; cases "count c") (simp_all add: finish_def)

lemma QueryWithPagination_pending:
  assumes "0 \<le> PaginationOps.Skip ops" and "0 \<le> PaginationOps.Limit ops"
    and "QueryWithPagination d sched tr ops = None"
  shows "count_list sched CountTask < 3
     \<or> count_list sched FetchTask \<le> 2 * length (fetch_log (run d sched (start tr ops))) + 1"
proof -
  let ?c = "run d sched (start tr ops)"
  have np: "fetch ?c \<noteq> FetchPanic" by (rule run_no_panic [OF assms(1,2)])
  from assms(3) have "finish ?c = None" by (simp add: QueryWithPagination_def)
  then have "\<not> fetch_ended (fetch ?c) \<or> 0 < count_left (count ?c)"
    by (rule finish_None)
  then show ?thesis
  proof
    assume ne: "\<not> fetch_ended (fetch ?c)"
    have "fetch_taken ?c \<le> 2 * length (fetch_log ?c) + 1"
      unfolding fetch_taken_def by (rule fetch_taken_at_le [OF ne])
    with run_fetch_taken [OF ne] show ?thesis by simp
  next
    assume "0 < count_left (count ?c)"
    with run_count_done [OF np, of ] show ?thesis
      by (cases "3 \<le> count_list sched CountTask") auto
  qed
qed

lemma QueryWithPagination_returns_within:
  assumes s: "0 \<le> PaginationOps.Skip ops" and l: "0 \<le> PaginationOps.Limit ops"
    and B: "\<And>pages. fetch_goes_on (PaginationOps.Limit ops) 0 pages \<Longrightarrow>
              set (map Inr pages) \<subseteq> set (map snd (fetch_log (run d sched (start tr ops)))) \<Longrightarrow>
              length pages \<le> b"
    and nc: "3 \<le> count_list sched CountTask"
    and nf: "2 * b + 4 \<le> count_list sched FetchTask"
  shows "\<exists>r ops' tr'. QueryWithPagination d sched tr ops = Some (Returned (r, ops', tr'))"
proof -
  let ?c = "run d sched (start tr ops)"
  have np: "fetch ?c \<noteq> FetchPanic" by (rule run_no_panic [OF s l])
  have inv: "fetch_inv ops ?c"
    using all_inv_run [of ops tr d sched] by (simp add: all_inv_def)
  have "fetch_ended (fetch ?c)"
  proof (rule ccontr)
    assume ne: "\<not> fetch_ended (fetch ?c)"
    from fetch_taken_bound [OF inv ne B] have "fetch_taken ?c \<le> 2 * b + 3" by simp
    with run_fetch_taken [OF ne] nf show False by simp
  qed
  with np obtain ferr items where f: "fetch ?c = FetchDone ferr items"
    by (cases "fetch ?c") simp_all
  from run_count_done [OF np nc] obtain cerr n where c: "count ?c = CountDone cerr n"
    by blast
  from finish_returns [OF f c] show ?thesis
    by (auto simp: QueryWithPagination_def)
qed

lemma QueryWithPagination_returns:
  assumes s: "0 \<le> PaginationOps.Skip ops" and l: "0 \<le> PaginationOps.Limit ops"
    and h: "pages_not_empty d"
    and nc: "3 \<le> count_list sched CountTask"
    and nf: "2 * (nat (PaginationOps.Limit ops) - 1) + 4 \<le> count_list sched FetchTask"
  shows "\<exists>r ops' tr'. QueryWithPagination d sched tr ops = Some (Returned (r, ops', tr'))"
  by (rule QueryWithPagination_returns_within [OF s l pages_bound [OF answered_run h] nc nf])

lemma never_fails_no_error:
  assumes nf: "never_fails d"
    and ret: "QueryWithPagination d sched tr ops = Some (Returned ((res, err), ops', tr'))"
  shows "err = None \<and> res \<noteq> None"
proof -
  let ?c = "run d sched (start tr ops)"
  have a: "answered d ?c" by (rule answered_run)
  have inv: "all_inv ops tr ?c" by (rule all_inv_run)
  from ret have fin: "finish ?c = Some (Returned ((res, err), ops', tr'))"
    by (simp add: QueryWithPagination_def)
  from fin obtain ferr items cerr n where
    f: "fetch ?c = FetchDone ferr items" and c: "count ?c = CountDone cerr n"
    and r: "(res, err) = (if errs ?c \<noteq> [] then (None, Some (Join (errs ?c)))
          else (Some \<lparr>PaginatedResults.Items = items,
                      PaginatedResults.Skip = PaginationOps.Skip (input ?c),
                      PaginatedResults.Limit = PaginationOps.Limit (input ?c),
                      PaginatedResults.Count = n\<rparr>, None))"
    by (rule finish_Returned)
  have no_Inl: "answer \<noteq> Inl msg"
    if "(req, answer) \<in> set (fetch_log ?c) \<union> set (count_log ?c)" for req answer msg
  proof -
    from answeredD [OF a that] obtain tr'' where "answer = client_Query d tr'' req"
      by blast
    with nf show ?thesis unfolding never_fails_def by (metis sum.distinct(1))
  qed
  have "ferr = None"
  proof (cases ferr)
    case (Some e)
    with inv f obtain pages msg where "map snd (fetch_log ?c) = map Inr pages @ [Inl msg]"
      by (auto simp: all_inv_def fetch_inv_def fetch_ok_def fetch_sent_def)
    then have "Inl msg \<in> set (map snd (fetch_log ?c))" by simp
    then obtain req where "(req, Inl msg) \<in> set (fetch_log ?c)" by auto
    with no_Inl show ?thesis by blast
  qed simp
  moreover have "cerr = None"
  proof (cases cerr)
    case (Some e)
    from inv c have "counted ops ?c cerr n" by (simp add: all_inv_def count_inv_def)
    then obtain req answer where cl: "count_log ?c = [(req, answer)]"
      and an: "case answer of
              Inl msg \<Rightarrow> cerr = Some (Errorf ''error getting query count'' (SdkError msg))
                           \<and> n = 0
            | Inr output \<Rightarrow> cerr = None \<and> n = sint (QueryOutput.Count output)"
      unfolding counted_def by blast
    from an Some obtain msg where "answer = Inl msg" by (cases answer) simp_all
    with cl have "count_log ?c = [(req, Inl msg)]" by simp
    then have "(req, Inl msg) \<in> set (count_log ?c)" by simp
    with no_Inl show ?thesis by blast
  qed simp
  ultimately have "fetch_error ?c = []" "count_error ?c = []"
    using f c by (simp_all add: fetch_error_def count_error_def)
  with inv have "errs ?c = []" by (simp add: all_inv_def errs_inv_def)
  with r show ?thesis by simp
qed

section \<open>Query with pagination: what the wrapper guarantees\<close>

lemma returned_result:
  assumes ret: "QueryWithPagination d sched tr ops = Some (Returned ((Some res, err), ops', tr'))"
  obtains items n where
    "fetch (run d sched (start tr ops)) = FetchDone None items"
    "count (run d sched (start tr ops)) = CountDone None n"
    "PaginatedResults.Items res = items" "PaginatedResults.Count res = n" "err = None"
proof -
  let ?c = "run d sched (start tr ops)"
  from ret have fin: "finish ?c = Some (Returned ((Some res, err), ops', tr'))"
    by (simp add: QueryWithPagination_def)
  from fin obtain ferr items cerr n where
    f: "fetch ?c = FetchDone ferr items" and c: "count ?c = CountDone cerr n"
    and r: "(Some res, err) = (if errs ?c \<noteq> [] then (None, Some (Join (errs ?c)))
          else (Some \<lparr>PaginatedResults.Items = items,
                      PaginatedResults.Skip = PaginationOps.Skip (input ?c),
                      PaginatedResults.Limit = PaginationOps.Limit (input ?c),
                      PaginatedResults.Count = n\<rparr>, None))"
    by (rule finish_Returned)
  from r have noerr: "errs ?c = []" and res: "PaginatedResults.Items res = items"
      "PaginatedResults.Count res = n" "err = None"
    by (auto split: if_splits)
  have "errs_inv ?c" using all_inv_run [of ops tr d sched] by (simp add: all_inv_def)
  with noerr have "fetch_error ?c = []" "count_error ?c = []"
    by (auto simp: errs_inv_def)
  with f c have "ferr = None" "cerr = None"
    by (auto simp: fetch_error_def count_error_def split: option.splits)
  with f c res that show ?thesis by blast
qed

lemma length_drop_take:
  "0 \<le> l \<Longrightarrow> 0 \<le> s \<Longrightarrow> int (length (drop (nat s) (take (nat l) xs))) \<le> max (l - s) 0"
  by auto

lemmas run_example =
  QueryWithPagination_def finish_def start_def step_def step_fetch_def step_count_def Let_def
  GetQueryCount_def table_client_def table_Query_def example_ops_def example_query_def
  example_table_def SelectCount_def

lemma example_never_fails: "never_fails (table_client example_table [])"
  by (simp add: never_fails_def table_client_def table_Query_def split: list.split)

lemma example_pages_after:
  "pages_after k example_table = example_table
     \<or> pages_after k example_table = [[4, 5, 6, 7, 8, 9, 10]]
     \<or> pages_after k example_table = []"
  by (cases k) (simp_all add: example_table_def)

lemma example_pages_not_empty: "pages_not_empty (table_client example_table [])"
  unfolding pages_not_empty_def
proof (intro allI impI)
  fix tr req p
  assume a: "client_Query (table_client example_table []) tr req = Inr p"
    and k: "QueryOutput.LastEvaluatedKey p \<noteq> None"
  from example_pages_after [of "QueryInput.ExclusiveStartKey req"] a k
  show "QueryOutput.Items p \<noteq> []"
    by (auto simp: table_client_def table_Query_def example_table_def split: if_splits)
qed

text \<open>
  Claim C1.  With \<open>Skip\<close> and \<open>Limit\<close> not negative, under every schedule and with
  every client, no slice expression panics, and a result that \<open>QueryWithPagination\<close>
  returns is made as follows.  The fetching goroutine received the pages \<open>pages\<close>, each
  request carrying the cursor of the page before it; it went on after every page but
  the last, and the last page came without a cursor or brought the items to \<open>Limit\<close>
  or beyond (\<open>fetch_stops\<close>).  The items returned are the first \<open>Limit\<close> items of
  the pages in their order, without the first \<open>Skip\<close> of them; so there are at most
  \<open>max (Limit - Skip) 0\<close>.

  The call does return.  As long as it has not, the counting goroutine has been
  scheduled fewer than its three steps, or every step of the fetching goroutine was
  one of the two steps of an iteration that made a query: line 161 and the send take
  one step each and are never repeated.  So with a client that sends no empty page
  together with a cursor, the loop makes at most \<open>max 1 Limit\<close> queries, and a schedule
  with three steps of the counting goroutine and \<open>2 * max 1 Limit + 2\<close> of the fetching
  goroutine ends in a return.  With a client that does not fail, what is returned is a
  result.
\<close>

theorem QueryWithPagination_items_within_limit:
  assumes "0 \<le> PaginationOps.Skip ops" and "0 \<le> PaginationOps.Limit ops"
  shows "QueryWithPagination d sched tr ops \<noteq> Some Panicked
    \<and> (\<forall>res err ops' tr'.
          QueryWithPagination d sched tr ops = Some (Returned ((Some res, err), ops', tr')) \<longrightarrow>
          (\<exists>pages.
             map snd (fetch_log (run d sched (start tr ops))) = map Inr pages
           \<and> map fst (fetch_log (run d sched (start tr ops)))
               = map (with_key ops) (butlast (cursors pages))
           \<and> fetch_stops (PaginationOps.Limit ops) pages
           \<and> PaginatedResults.Items res
               = drop (nat (PaginationOps.Skip ops))
                   (take (nat (PaginationOps.Limit ops)) (concat (map QueryOutput.Items pages)))
           \<and> int (length (PaginatedResults.Items res))
               \<le> max (PaginationOps.Limit ops - PaginationOps.Skip ops) 0))
    \<and> (QueryWithPagination d sched tr ops = None \<longrightarrow>
          count_list sched CountTask < 3
        \<or> count_list sched FetchTask
             \<le> 2 * length (fetch_log (run d sched (start tr ops))) + 1)
    \<and> (pages_not_empty d \<and> 3 \<le> count_list sched CountTask
        \<and> 2 * max 1 (nat (PaginationOps.Limit ops)) + 2 \<le> count_list sched FetchTask \<longrightarrow>
          (\<exists>r ops' tr'. QueryWithPagination d sched tr ops = Some (Returned (r, ops', tr'))))
    \<and> (never_fails d \<longrightarrow>
          (\<forall>res err ops' tr'.
             QueryWithPagination d sched tr ops = Some (Returned ((res, err), ops', tr')) \<longrightarrow>
             res \<noteq> None \<and> err = None))"
proof -
  let ?c = "run d sched (start tr ops)"
  have inv: "fetch_inv ops ?c"
    using all_inv_run [of ops tr d sched] by (simp add: all_inv_def)
  have A: "QueryWithPagination d sched tr ops \<noteq> Some Panicked"
    using run_no_panic [OF assms, of d sched tr]
    by (simp add: QueryWithPagination_def finish_Panicked)
  have B: "\<exists>pages.
             map snd (fetch_log ?c) = map Inr pages
           \<and> map fst (fetch_log ?c) = map (with_key ops) (butlast (cursors pages))
           \<and> fetch_stops (PaginationOps.Limit ops) pages
           \<and> PaginatedResults.Items res
               = drop (nat (PaginationOps.Skip ops))
                   (take (nat (PaginationOps.Limit ops)) (concat (map QueryOutput.Items pages)))
           \<and> int (length (PaginatedResults.Items res))
               \<le> max (PaginationOps.Limit ops - PaginationOps.Skip ops) 0"
    if "QueryWithPagination d sched tr ops = Some (Returned ((Some res, err), ops', tr'))"
    for res err ops' tr'
  proof -
    from that obtain items n where f: "fetch ?c = FetchDone None items"
      and res: "PaginatedResults.Items res = items"
      by (rule returned_result)
    from inv f obtain pages where p:
      "map snd (fetch_log ?c) = map Inr pages"
      "map fst (fetch_log ?c) = map (with_key ops) (butlast (cursors pages))"
      "fetch_stops (PaginationOps.Limit ops) pages"
      "items = drop (nat (PaginationOps.Skip ops))
         (take (nat (PaginationOps.Limit ops)) (concat (map QueryOutput.Items pages)))"
      by (auto simp: fetch_inv_def fetch_ok_def fetch_sent_def)
    have "int (length (PaginatedResults.Items res))
                 \<le> max (PaginationOps.Limit ops - PaginationOps.Skip ops) 0"
      unfolding res p(4) by (rule length_drop_take [OF assms(2,1)])
    with res p show ?thesis by blast
  qed
  have C: "count_list sched CountTask < 3
        \<or> count_list sched FetchTask \<le> 2 * length (fetch_log ?c) + 1"
    if "QueryWithPagination d sched tr ops = None"
    by (rule QueryWithPagination_pending [OF assms that])
  have D: "\<exists>r ops' tr'. QueryWithPagination d sched tr ops = Some (Returned (r, ops', tr'))"
    if "pages_not_empty d \<and> 3 \<le> count_list sched CountTask
        \<and> 2 * max 1 (nat (PaginationOps.Limit ops)) + 2 \<le> count_list sched FetchTask"
  proof -
    from that have h: "pages_not_empty d" and nc: "3 \<le> count_list sched CountTask"
      and "2 * max 1 (nat (PaginationOps.Limit ops)) + 2 \<le> count_list sched FetchTask"
      by simp_all
    then have nf: "2 * (nat (PaginationOps.Limit ops) - 1) + 4 \<le> count_list sched FetchTask"
      by arith
    show ?thesis by (rule QueryWithPagination_returns [OF assms h nc nf])
  qed
  have E: "res \<noteq> None \<and> err = None"
    if "never_fails d"
      "QueryWithPagination d sched tr ops = Some (Returned ((res, err), ops', tr'))"
    for res err ops' tr'
    using never_fails_no_error [OF that] by simp
  show ?thesis
  proof (intro conjI)
    show "QueryWithPagination d sched tr ops \<noteq> Some Panicked" by (rule A)
    show "\<forall>res err ops' tr'.
          QueryWithPagination d sched tr ops = Some (Returned ((Some res, err), ops', tr')) \<longrightarrow>
          (\<exists>pages.
             map snd (fetch_log ?c) = map Inr pages
           \<and> map fst (fetch_log ?c) = map (with_key ops) (butlast (cursors pages))
           \<and> fetch_stops (PaginationOps.Limit ops) pages
           \<and> PaginatedResults.Items res
               = drop (nat (PaginationOps.Skip ops))
                   (take (nat (PaginationOps.Limit ops)) (concat (map QueryOutput.Items pages)))
           \<and> int (length (PaginatedResults.Items res))
               \<le> max (PaginationOps.Limit ops - PaginationOps.Skip ops) 0)"
      by (intro allI impI) (rule B)
    show "QueryWithPagination d sched tr ops = None \<longrightarrow>
          count_list sched CountTask < 3
        \<or> count_list sched FetchTask \<le> 2 * length (fetch_log ?c) + 1"
      by (intro impI) (rule C)
    show "pages_not_empty d \<and> 3 \<le> count_list sched CountTask
        \<and> 2 * max 1 (nat (PaginationOps.Limit ops)) + 2 \<le> count_list sched FetchTask \<longrightarrow>
          (\<exists>r ops' tr'. QueryWithPagination d sched tr ops = Some (Returned (r, ops', tr')))"
      by (intro impI) (rule D)
    show "never_fails d \<longrightarrow>
          (\<forall>res err ops' tr'.
             QueryWithPagination d sched tr ops = Some (Returned ((res, err), ops', tr')) \<longrightarrow>
             res \<noteq> None \<and> err = None)"
      by (intro allI impI) (rule E)
  qed
qed

theorem QueryWithPagination_items_within_limit_witness:
  "0 \<le> PaginationOps.Skip example_ops \<and> 0 \<le> PaginationOps.Limit example_ops
   \<and> QueryWithPagination (table_client example_table []) count_first [] example_ops
       = Some (Returned
           ((Some \<lparr>PaginatedResults.Items = [3, 4, 5], PaginatedResults.Skip = 2,
                   PaginatedResults.Limit = 5, PaginatedResults.Count = 10\<rparr>, None),
            example_ops\<lparr>QueryInput := example_query\<lparr>QueryInput.ExclusiveStartKey := Some 3\<rparr>\<rparr>,
            [CallQuery (example_query\<lparr>Select := SelectCount\<rparr>), CallQuery example_query,
             CallQuery (example_query\<lparr>QueryInput.ExclusiveStartKey := Some 3\<rparr>)]))
   \<and> int (length [3, 4, 5 :: nat])
       \<le> max (PaginationOps.Limit example_ops - PaginationOps.Skip example_ops) 0
   \<and> pages_not_empty (table_client example_table [])
   \<and> never_fails (table_client example_table [])
   \<and> 3 \<le> count_list (fetch_first @ fetch_first) CountTask
   \<and> 2 * max 1 (nat (PaginationOps.Limit example_ops)) + 2
       \<le> count_list (fetch_first @ fetch_first) FetchTask
   \<and> (\<exists>r ops' tr'.
         QueryWithPagination (table_client example_table []) (fetch_first @ fetch_first) []
           example_ops = Some (Returned (r, ops', tr')))
   \<and> QueryWithPagination (table_client example_table []) [FetchTask, FetchTask, FetchTask] []
         example_ops = None
   \<and> count_list [FetchTask, FetchTask, FetchTask] CountTask < 3"
proof -
  have s: "0 \<le> PaginationOps.Skip example_ops" and l: "0 \<le> PaginationOps.Limit example_ops"
    by (simp_all add: example_ops_def)
  have ev: "QueryWithPagination (table_client example_table []) count_first [] example_ops
       = Some (Returned
           ((Some \<lparr>PaginatedResults.Items = [3, 4, 5], PaginatedResults.Skip = 2,
                   PaginatedResults.Limit = 5, PaginatedResults.Count = 10\<rparr>, None),
            example_ops\<lparr>QueryInput := example_query\<lparr>QueryInput.ExclusiveStartKey := Some 3\<rparr>\<rparr>,
            [CallQuery (example_query\<lparr>Select := SelectCount\<rparr>), CallQuery example_query,
             CallQuery (example_query\<lparr>QueryInput.ExclusiveStartKey := Some 3\<rparr>)]))"
    by (simp add: run_example count_first_def)
  from QueryWithPagination_items_within_limit [OF s l,
      of "table_client example_table []" count_first "[]"] ev
  have len: "int (length (PaginatedResults.Items
            \<lparr>PaginatedResults.Items = [3, 4, 5 :: nat], PaginatedResults.Skip = 2,
             PaginatedResults.Limit = 5, PaginatedResults.Count = 10\<rparr>))
       \<le> max (PaginationOps.Limit example_ops - PaginationOps.Skip example_ops) 0"
    by blast
  have nc: "3 \<le> count_list (fetch_first @ fetch_first) CountTask"
    and nf: "2 * max 1 (nat (PaginationOps.Limit example_ops)) + 2
       \<le> count_list (fetch_first @ fetch_first) FetchTask"
    by (simp_all add: fetch_first_def example_ops_def)
  from QueryWithPagination_items_within_limit [OF s l,
      of "table_client example_table []" "fetch_first @ fetch_first" "[]"]
    example_pages_not_empty nc nf
  have ret: "\<exists>r ops' tr'.
         QueryWithPagination (table_client example_table []) (fetch_first @ fetch_first) []
           example_ops = Some (Returned (r, ops', tr'))"
    by blast
  have pend: "QueryWithPagination (table_client example_table [])
         [FetchTask, FetchTask, FetchTask] [] example_ops = None"
    by (simp add: run_example)
  from s l ev len example_pages_not_empty example_never_fails nc nf ret pend
  show ?thesis by simp
qed







section \<open>Query with pagination: failures\<close>

text \<open>
  What a call that returns tells of the two goroutines.
\<close>

lemma returned_failures:
  assumes "QueryWithPagination d sched tr ops = Some (Returned ((res, err), ops', tr'))"
  shows "\<exists>creq fanswer canswer.
      fetch_log (run d sched (start tr ops)) \<noteq> []
    \<and> snd (last (fetch_log (run d sched (start tr ops)))) = fanswer
    \<and> count_log (run d sched (start tr ops)) = [(creq, canswer)]
    \<and> (res = None \<longleftrightarrow> err \<noteq> None)
    \<and> (err \<noteq> None \<longleftrightarrow> isl fanswer \<or> isl canswer)
    \<and> (\<forall>m. fanswer = Inl m \<and> \<not> isl canswer \<longrightarrow>
          err = Some (Join [Errorf ''error querying dynamo'' (SdkError m)]))
    \<and> (\<forall>m'. \<not> isl fanswer \<and> canswer = Inl m' \<longrightarrow>
          err = Some (Join [Errorf ''error getting query count'' (SdkError m')]))
    \<and> (\<forall>m m'. fanswer = Inl m \<and> canswer = Inl m' \<longrightarrow>
          err = Some (Join [Errorf ''error querying dynamo'' (SdkError m),
                            Errorf ''error getting query count'' (SdkError m')])
        \<or> err = Some (Join [Errorf ''error getting query count'' (SdkError m'),
                            Errorf ''error querying dynamo'' (SdkError m)]))
    \<and> (\<not> isl fanswer \<longrightarrow>
          (\<exists>pages. map snd (fetch_log (run d sched (start tr ops))) = map Inr pages
             \<and> fetch_stops (PaginationOps.Limit ops) pages))"
proof -
  let ?c = "run d sched (start tr ops)"
  let ?F = "\<lambda>m. Errorf ''error querying dynamo'' (SdkError m)"
  let ?C = "\<lambda>m. Errorf ''error getting query count'' (SdkError m)"
  have inv: "all_inv ops tr ?c" by (rule all_inv_run)
  from assms have "finish ?c = Some (Returned ((res, err), ops', tr'))"
    by (simp add: QueryWithPagination_def)
  then obtain ferr items cerr n where
    f: "fetch ?c = FetchDone ferr items" and c: "count ?c = CountDone cerr n"
    and r: "(res, err) = (if errs ?c \<noteq> [] then (None, Some (Join (errs ?c)))
          else (Some \<lparr>PaginatedResults.Items = items,
                      PaginatedResults.Skip = PaginationOps.Skip (input ?c),
                      PaginatedResults.Limit = PaginationOps.Limit (input ?c),
                      PaginatedResults.Count = n\<rparr>, None))"
    by (rule finish_Returned)
  from r have res: "res = None \<longleftrightarrow> err \<noteq> None"
    and err: "err = (if errs ?c \<noteq> [] then Some (Join (errs ?c)) else None)"
    by (auto split: if_splits)
  from inv f c have es: "errs ?c = (case ferr of None \<Rightarrow> [] | Some e \<Rightarrow> [e])
                                    @ (case cerr of None \<Rightarrow> [] | Some e \<Rightarrow> [e])
        \<or> errs ?c = (case cerr of None \<Rightarrow> [] | Some e \<Rightarrow> [e])
                       @ (case ferr of None \<Rightarrow> [] | Some e \<Rightarrow> [e])"
    by (auto simp: all_inv_def errs_inv_def fetch_error_def count_error_def split: option.splits)
  from inv c have "counted ops ?c cerr n" by (simp add: all_inv_def count_inv_def)
  then obtain creq canswer where
    cl: "count_log ?c = [(creq, canswer)]"
    and ca: "case canswer of
       Inl msg \<Rightarrow> cerr = Some (?C msg) \<and> n = 0
     | Inr out \<Rightarrow> cerr = None \<and> n = sint (QueryOutput.Count out)"
    unfolding counted_def by blast
  from inv f have fs: "fetch_sent ops (fetch_log ?c) (QueryInput (input ?c)) ferr items"
    by (simp add: all_inv_def fetch_inv_def fetch_ok_def)
  have fa: "fetch_log ?c \<noteq> []
      \<and> (case snd (last (fetch_log ?c)) of
            Inl m \<Rightarrow> ferr = Some (?F m)
          | Inr p \<Rightarrow> ferr = None
              \<and> (\<exists>pages. map snd (fetch_log ?c) = map Inr pages
                   \<and> fetch_stops (PaginationOps.Limit ops) pages))"
  proof (cases ferr)
    case None
    with fs obtain pages where p: "map snd (fetch_log ?c) = map Inr pages"
      "fetch_stops (PaginationOps.Limit ops) pages"
      by (auto simp: fetch_sent_def)
    then have ne: "pages \<noteq> []" by (simp add: fetch_stops_def)
    with p(1) have "fetch_log ?c \<noteq> []" by auto
    moreover from this have "snd (last (fetch_log ?c)) = last (map snd (fetch_log ?c))"
      by (simp add: last_map)
    with p(1) ne have "snd (last (fetch_log ?c)) = Inr (last pages)"
      by (simp add: last_map)
    ultimately show ?thesis using None p by auto
  next
    case (Some e)
    with fs obtain pages msg where p: "map snd (fetch_log ?c) = map Inr pages @ [Inl msg]"
      "e = ?F msg"
      by (auto simp: fetch_sent_def)
    then have "fetch_log ?c \<noteq> []" by auto
    moreover from this have "snd (last (fetch_log ?c)) = last (map snd (fetch_log ?c))"
      by (simp add: last_map)
    with p(1) have "snd (last (fetch_log ?c)) = Inl msg" by simp
    ultimately show ?thesis using Some p by auto
  qed
  show ?thesis
  proof (rule exI [of _ creq], rule exI [of _ "snd (last (fetch_log ?c))"],
      rule exI [of _ canswer], intro conjI)
    show "fetch_log ?c \<noteq> []" using fa by simp
    show "snd (last (fetch_log ?c)) = snd (last (fetch_log ?c))" ..
    show "count_log ?c = [(creq, canswer)]" by (rule cl)
    show "res = None \<longleftrightarrow> err \<noteq> None" by (rule res)
    show "err \<noteq> None \<longleftrightarrow> isl (snd (last (fetch_log ?c))) \<or> isl canswer"
      using fa ca es err
      by (cases "snd (last (fetch_log ?c))"; cases canswer) auto
    show "\<forall>m. snd (last (fetch_log ?c)) = Inl m \<and> \<not> isl canswer \<longrightarrow>
          err = Some (Join [?F m])"
      using fa ca es err by (cases canswer) auto
    show "\<forall>m'. \<not> isl (snd (last (fetch_log ?c))) \<and> canswer = Inl m' \<longrightarrow>
          err = Some (Join [?C m'])"
      using fa ca es err by (cases "snd (last (fetch_log ?c))") auto
    show "\<forall>m m'. snd (last (fetch_log ?c)) = Inl m \<and> canswer = Inl m' \<longrightarrow>
          err = Some (Join [?F m, ?C m']) \<or> err = Some (Join [?C m', ?F m])"
      using fa ca es err by auto
    show "\<not> isl (snd (last (fetch_log ?c))) \<longrightarrow>
          (\<exists>pages. map snd (fetch_log ?c) = map Inr pages
             \<and> fetch_stops (PaginationOps.Limit ops) pages)"
      using fa by (cases "snd (last (fetch_log ?c))") auto
  qed
qed

lemma disjE_not1: "P \<or> Q \<Longrightarrow> \<not> P \<Longrightarrow> Q"
  by blast

text \<open>
  Claim C5, as amended.  With \<open>Skip\<close> and \<open>Limit\<close> not negative, under every schedule
  and with every client, no slice expression panics and each goroutine runs to its end
  whatever the other does: once the counting goroutine has been scheduled its three
  steps it has made its one query and sent its answer, and the fetching goroutine has
  ended or every step it was scheduled was one of the two steps of an iteration that
  made a query.  So the call returns unless the schedule or the pages go on for ever:
  with a client that sends no empty page together with a cursor, three steps of the
  counting goroutine and \<open>2 * max 1 Limit + 2\<close> of the fetching goroutine end in a
  return.  When the call returns, the counting goroutine has made its query, and the
  fetching goroutine has ended its loop by its own rule (\<open>fetch_stops\<close>) unless its own
  last query failed.  The call returns an error exactly when the last query of the
  fetching goroutine or the query of the counting goroutine failed; the error joins the
  failure of the one that failed, and of both, in the order of their arrival, when both
  failed; and with an error no result is returned.
\<close>

theorem QueryWithPagination_joins_failures:
  assumes "0 \<le> PaginationOps.Skip ops" and "0 \<le> PaginationOps.Limit ops"
  shows "QueryWithPagination d sched tr ops \<noteq> Some Panicked
    \<and> (3 \<le> count_list sched CountTask \<longrightarrow>
          (\<exists>cerr n creq canswer.
             count (run d sched (start tr ops)) = CountDone cerr n
           \<and> count_log (run d sched (start tr ops)) = [(creq, canswer)]))
    \<and> ((\<exists>ferr items. fetch (run d sched (start tr ops)) = FetchDone ferr items)
        \<or> count_list sched FetchTask
             \<le> 2 * length (fetch_log (run d sched (start tr ops))) + 1)
    \<and> (QueryWithPagination d sched tr ops = None \<longrightarrow>
          count_list sched CountTask < 3
        \<or> count_list sched FetchTask
             \<le> 2 * length (fetch_log (run d sched (start tr ops))) + 1)
    \<and> (pages_not_empty d \<and> 3 \<le> count_list sched CountTask
        \<and> 2 * max 1 (nat (PaginationOps.Limit ops)) + 2 \<le> count_list sched FetchTask \<longrightarrow>
          (\<exists>r ops' tr'. QueryWithPagination d sched tr ops = Some (Returned (r, ops', tr'))))
    \<and> (\<forall>res err ops' tr'.
          QueryWithPagination d sched tr ops = Some (Returned ((res, err), ops', tr')) \<longrightarrow>
          (\<exists>creq fanswer canswer.
            fetch_log (run d sched (start tr ops)) \<noteq> []
          \<and> snd (last (fetch_log (run d sched (start tr ops)))) = fanswer
          \<and> count_log (run d sched (start tr ops)) = [(creq, canswer)]
          \<and> (res = None \<longleftrightarrow> err \<noteq> None)
          \<and> (err \<noteq> None \<longleftrightarrow> isl fanswer \<or> isl canswer)
          \<and> (\<forall>m. fanswer = Inl m \<and> \<not> isl canswer \<longrightarrow>
                err = Some (Join [Errorf ''error querying dynamo'' (SdkError m)]))
          \<and> (\<forall>m'. \<not> isl fanswer \<and> canswer = Inl m' \<longrightarrow>
                err = Some (Join [Errorf ''error getting query count'' (SdkError m')]))
          \<and> (\<forall>m m'. fanswer = Inl m \<and> canswer = Inl m' \<longrightarrow>
                err = Some (Join [Errorf ''error querying dynamo'' (SdkError m),
                                  Errorf ''error getting query count'' (SdkError m')])
              \<or> err = Some (Join [Errorf ''error getting query count'' (SdkError m'),
                                  Errorf ''error querying dynamo'' (SdkError m)]))
          \<and> (\<not> isl fanswer \<longrightarrow>
                (\<exists>pages. map snd (fetch_log (run d sched (start tr ops))) = map Inr pages
                   \<and> fetch_stops (PaginationOps.Limit ops) pages))))"
proof -
  let ?c = "run d sched (start tr ops)"
  have np: "fetch ?c \<noteq> FetchPanic" by (rule run_no_panic [OF assms])
  have A: "QueryWithPagination d sched tr ops \<noteq> Some Panicked"
    using np by (simp add: QueryWithPagination_def finish_Panicked)
  have B: "\<exists>cerr n creq canswer.
             count ?c = CountDone cerr n \<and> count_log ?c = [(creq, canswer)]"
    if "3 \<le> count_list sched CountTask"
    using run_count_done [OF np that] run_count_log [OF np that] by blast
  have C: "(\<exists>ferr items. fetch ?c = FetchDone ferr items)
        \<or> count_list sched FetchTask \<le> 2 * length (fetch_log ?c) + 1"
  proof (cases "fetch_ended (fetch ?c)")
    case True
    with np show ?thesis by (cases "fetch ?c") simp_all
  next
    case False
    have "fetch_taken ?c \<le> 2 * length (fetch_log ?c) + 1"
      unfolding fetch_taken_def by (rule fetch_taken_at_le [OF False])
    with run_fetch_taken [OF False] show ?thesis by simp
  qed
  have D: "count_list sched CountTask < 3
        \<or> count_list sched FetchTask \<le> 2 * length (fetch_log ?c) + 1"
    if "QueryWithPagination d sched tr ops = None"
    by (rule QueryWithPagination_pending [OF assms that])
  have E: "\<exists>r ops' tr'. QueryWithPagination d sched tr ops = Some (Returned (r, ops', tr'))"
    if "pages_not_empty d \<and> 3 \<le> count_list sched CountTask
        \<and> 2 * max 1 (nat (PaginationOps.Limit ops)) + 2 \<le> count_list sched FetchTask"
  proof -
    from that have h: "pages_not_empty d" and nc: "3 \<le> count_list sched CountTask"
      and "2 * max 1 (nat (PaginationOps.Limit ops)) + 2 \<le> count_list sched FetchTask"
      by simp_all
    then have nf: "2 * (nat (PaginationOps.Limit ops) - 1) + 4 \<le> count_list sched FetchTask"
      by arith
    show ?thesis by (rule QueryWithPagination_returns [OF assms h nc nf])
  qed
  show ?thesis
  proof (intro conjI)
    show "QueryWithPagination d sched tr ops \<noteq> Some Panicked" by (rule A)
    show "3 \<le> count_list sched CountTask \<longrightarrow>
          (\<exists>cerr n creq canswer.
             count ?c = CountDone cerr n \<and> count_log ?c = [(creq, canswer)])"
      by (intro impI) (rule B)
    show "(\<exists>ferr items. fetch ?c = FetchDone ferr items)
        \<or> count_list sched FetchTask \<le> 2 * length (fetch_log ?c) + 1"
      by (rule C)
    show "QueryWithPagination d sched tr ops = None \<longrightarrow>
          count_list sched CountTask < 3
        \<or> count_list sched FetchTask \<le> 2 * length (fetch_log ?c) + 1"
      by (intro impI) (rule D)
    show "pages_not_empty d \<and> 3 \<le> count_list sched CountTask
        \<and> 2 * max 1 (nat (PaginationOps.Limit ops)) + 2 \<le> count_list sched FetchTask \<longrightarrow>
          (\<exists>r ops' tr'. QueryWithPagination d sched tr ops = Some (Returned (r, ops', tr')))"
      by (intro impI) (rule E)
    show "\<forall>res err ops' tr'.
          QueryWithPagination d sched tr ops = Some (Returned ((res, err), ops', tr')) \<longrightarrow>
          (\<exists>creq fanswer canswer.
            fetch_log (run d sched (start tr ops)) \<noteq> []
          \<and> snd (last (fetch_log (run d sched (start tr ops)))) = fanswer
          \<and> count_log (run d sched (start tr ops)) = [(creq, canswer)]
          \<and> (res = None \<longleftrightarrow> err \<noteq> None)
          \<and> (err \<noteq> None \<longleftrightarrow> isl fanswer \<or> isl canswer)
          \<and> (\<forall>m. fanswer = Inl m \<and> \<not> isl canswer \<longrightarrow>
                err = Some (Join [Errorf ''error querying dynamo'' (SdkError m)]))
          \<and> (\<forall>m'. \<not> isl fanswer \<and> canswer = Inl m' \<longrightarrow>
                err = Some (Join [Errorf ''error getting query count'' (SdkError m')]))
          \<and> (\<forall>m m'. fanswer = Inl m \<and> canswer = Inl m' \<longrightarrow>
                err = Some (Join [Errorf ''error querying dynamo'' (SdkError m),
                                  Errorf ''error getting query count'' (SdkError m')])
              \<or> err = Some (Join [Errorf ''error getting query count'' (SdkError m'),
                                  Errorf ''error querying dynamo'' (SdkError m)]))
          \<and> (\<not> isl fanswer \<longrightarrow>
                (\<exists>pages. map snd (fetch_log (run d sched (start tr ops))) = map Inr pages
                   \<and> fetch_stops (PaginationOps.Limit ops) pages)))"
      by (intro allI impI) (rule returned_failures)
  qed
qed

theorem QueryWithPagination_panic_counterexample:
  "QueryWithPagination (table_client example_table []) fetch_first []
     (example_ops\<lparr>PaginationOps.Skip := - 1\<rparr>) = Some Panicked
   \<and> count (run (table_client example_table []) fetch_first
        (start [] (example_ops\<lparr>PaginationOps.Skip := - 1\<rparr>))) = CountCopy
   \<and> QueryWithPagination (table_client example_table []) count_after_first_page []
       (example_ops\<lparr>PaginationOps.Skip := 0, PaginationOps.Limit := - 1\<rparr>) = Some Panicked
   \<and> count (run (table_client example_table []) count_after_first_page
        (start [] (example_ops\<lparr>PaginationOps.Skip := 0, PaginationOps.Limit := - 1\<rparr>)))
       = CountCopy"
  by (simp add: run_example fetch_first_def count_after_first_page_def)

theorem QueryWithPagination_joins_failures_witness:
  "0 \<le> PaginationOps.Skip example_ops \<and> 0 \<le> PaginationOps.Limit example_ops
   \<and> QueryWithPagination (table_client example_table [0, 1]) count_first [] example_ops
       = Some (Returned
           ((None, Some (Join [Errorf ''error getting query count''
                                 (SdkError ''InternalServerError''),
                               Errorf ''error querying dynamo''
                                 (SdkError ''InternalServerError'')])),
            example_ops,
            [CallQuery (example_query\<lparr>Select := SelectCount\<rparr>), CallQuery example_query]))
   \<and> QueryWithPagination (table_client example_table [0]) count_first [] example_ops
       = Some (Returned
           ((None, Some (Join [Errorf ''error getting query count''
                                 (SdkError ''InternalServerError'')])),
            example_ops\<lparr>QueryInput := example_query\<lparr>QueryInput.ExclusiveStartKey := Some 3\<rparr>\<rparr>,
            [CallQuery (example_query\<lparr>Select := SelectCount\<rparr>), CallQuery example_query,
             CallQuery (example_query\<lparr>QueryInput.ExclusiveStartKey := Some 3\<rparr>)]))
   \<and> length (count_log (run (table_client example_table [0, 1]) count_first
         (start [] example_ops))) = 1
   \<and> length (count_log (run (table_client example_table [0]) count_first
         (start [] example_ops))) = 1
   \<and> pages_not_empty (table_client example_table [])
   \<and> 3 \<le> count_list (count_first @ count_first) CountTask
   \<and> 2 * max 1 (nat (PaginationOps.Limit example_ops)) + 2
       \<le> count_list (count_first @ count_first) FetchTask
   \<and> (\<exists>r ops' tr'.
         QueryWithPagination (table_client example_table []) (count_first @ count_first) []
           example_ops = Some (Returned (r, ops', tr')))
   \<and> QueryWithPagination (table_client example_table [0]) [CountTask, CountTask, CountTask] []
         example_ops = None
   \<and> count_list [CountTask, CountTask, CountTask] FetchTask
       \<le> 2 * length (fetch_log (run (table_client example_table [0])
             [CountTask, CountTask, CountTask] (start [] example_ops))) + 1"
proof -
  have s: "0 \<le> PaginationOps.Skip example_ops" and l: "0 \<le> PaginationOps.Limit example_ops"
    by (simp_all add: example_ops_def)
  have ev: "QueryWithPagination (table_client example_table [0, 1]) count_first [] example_ops
       = Some (Returned
           ((None, Some (Join [Errorf ''error getting query count''
                                 (SdkError ''InternalServerError''),
                               Errorf ''error querying dynamo''
                                 (SdkError ''InternalServerError'')])),
            example_ops,
            [CallQuery (example_query\<lparr>Select := SelectCount\<rparr>), CallQuery example_query]))"
    by (simp add: run_example count_first_def)
  have ev1: "QueryWithPagination (table_client example_table [0]) count_first [] example_ops
       = Some (Returned
           ((None, Some (Join [Errorf ''error getting query count''
                                 (SdkError ''InternalServerError'')])),
            example_ops\<lparr>QueryInput := example_query\<lparr>QueryInput.ExclusiveStartKey := Some 3\<rparr>\<rparr>,
            [CallQuery (example_query\<lparr>Select := SelectCount\<rparr>), CallQuery example_query,
             CallQuery (example_query\<lparr>QueryInput.ExclusiveStartKey := Some 3\<rparr>)]))"
    by (simp add: run_example count_first_def)
  note t = QueryWithPagination_joins_failures [OF s l]
  note counts = t [THEN conjunct2, THEN conjunct1, THEN mp]
  note pending = t [THEN conjunct2, THEN conjunct2, THEN conjunct2, THEN conjunct1, THEN mp]
  note returns = t [THEN conjunct2, THEN conjunct2, THEN conjunct2, THEN conjunct2,
      THEN conjunct1, THEN mp]
  have nc: "3 \<le> count_list count_first CountTask"
    by (simp add: count_first_def)
  from counts [OF nc, of "table_client example_table [0, 1]" "[]"]
  obtain creq canswer where
    "count_log (run (table_client example_table [0, 1]) count_first (start [] example_ops))
       = [(creq, canswer)]"
    by blast
  then have c: "length (count_log (run (table_client example_table [0, 1]) count_first
         (start [] example_ops))) = 1"
    by simp
  from counts [OF nc, of "table_client example_table [0]" "[]"]
  obtain creq' canswer' where
    "count_log (run (table_client example_table [0]) count_first (start [] example_ops))
       = [(creq', canswer')]"
    by blast
  then have c1: "length (count_log (run (table_client example_table [0]) count_first
         (start [] example_ops))) = 1"
    by simp
  have nc2: "3 \<le> count_list (count_first @ count_first) CountTask"
    and nf2: "2 * max 1 (nat (PaginationOps.Limit example_ops)) + 2
       \<le> count_list (count_first @ count_first) FetchTask"
    by (simp_all add: count_first_def example_ops_def)
  have ret: "\<exists>r ops' tr'.
         QueryWithPagination (table_client example_table []) (count_first @ count_first) []
           example_ops = Some (Returned (r, ops', tr'))"
    by (rule returns [OF conjI [OF example_pages_not_empty conjI [OF nc2 nf2]]])
  have pend: "QueryWithPagination (table_client example_table [0])
         [CountTask, CountTask, CountTask] [] example_ops = None"
    by (simp add: run_example)
  have three: "\<not> count_list [CountTask, CountTask, CountTask] CountTask < 3"
    by simp
  from pending [OF pend] three
  have acc: "count_list [CountTask, CountTask, CountTask] FetchTask
       \<le> 2 * length (fetch_log (run (table_client example_table [0])
             [CountTask, CountTask, CountTask] (start [] example_ops))) + 1"
    by (rule disjE_not1)
  show ?thesis
    by (intro conjI s l ev ev1 c c1 example_pages_not_empty nc2 nf2 ret pend acc)
qed

section \<open>The caller's request after the call\<close>

lemma QueryWithPagination_request_after:
  assumes "QueryWithPagination d sched tr ops = Some (Returned (r, ops', tr'))"
  shows "\<exists>keys pages creq canswer.
      keys \<noteq> [] \<and> hd keys = None
    \<and> (map snd (fetch_log (run d sched (start tr ops))) = map Inr pages
          \<and> keys = butlast (cursors pages)
        \<or> (\<exists>msg. map snd (fetch_log (run d sched (start tr ops))) = map Inr pages @ [Inl msg])
          \<and> keys = cursors pages)
    \<and> map fst (fetch_log (run d sched (start tr ops))) = map (with_key ops) keys
    \<and> ops' = ops\<lparr>QueryInput := with_key ops (last keys)\<rparr>
    \<and> count_log (run d sched (start tr ops)) = [(creq, canswer)]
    \<and> Select creq = SelectCount"
proof -
  let ?c = "run d sched (start tr ops)"
  have inv: "all_inv ops tr ?c" by (rule all_inv_run)
  from assms have "finish ?c = Some (Returned (r, ops', tr'))"
    by (simp add: QueryWithPagination_def)
  then obtain ferr items cerr n where
    f: "fetch ?c = FetchDone ferr items" and c: "count ?c = CountDone cerr n"
    and ops': "ops' = input ?c"
    by (rule finish_Returned)
  from inv obtain k0 where k0: "input ?c = ops\<lparr>QueryInput := with_key ops k0\<rparr>"
    by (auto simp: all_inv_def frame_inv_def)
  then have frame: "input ?c = ops\<lparr>QueryInput := QueryInput (input ?c)\<rparr>"
    by simp
  from inv c have "counted ops ?c cerr n" by (simp add: all_inv_def count_inv_def)
  then obtain creq canswer where
    cl: "count_log ?c = [(creq, canswer)]" and sel: "Select creq = SelectCount"
    unfolding counted_def by auto
  from inv f have fs: "fetch_sent ops (fetch_log ?c) (QueryInput (input ?c)) ferr items"
    by (simp add: all_inv_def fetch_inv_def fetch_ok_def)
  show ?thesis
  proof (cases ferr)
    case None
    with fs obtain pages where p: "map snd (fetch_log ?c) = map Inr pages"
      "map fst (fetch_log ?c) = map (with_key ops) (butlast (cursors pages))"
      "QueryInput (input ?c) = with_key ops (last (butlast (cursors pages)))"
      "fetch_stops (PaginationOps.Limit ops) pages"
      by (auto simp: fetch_sent_def)
    from p(4) have "pages \<noteq> []" by (simp add: fetch_stops_def)
    then have k: "butlast (cursors pages) \<noteq> []" "hd (butlast (cursors pages)) = None"
      by (simp_all add: cursors_def)
    from frame p(3) ops' have "ops' = ops\<lparr>QueryInput := with_key ops (last (butlast (cursors pages)))\<rparr>"
      by simp
    with k p cl sel show ?thesis
      by (intro exI [of _ "butlast (cursors pages)"] exI [of _ pages] exI [of _ creq]
            exI [of _ canswer]) simp
  next
    case (Some e)
    with fs obtain pages msg where p: "map snd (fetch_log ?c) = map Inr pages @ [Inl msg]"
      "map fst (fetch_log ?c) = map (with_key ops) (cursors pages)"
      "QueryInput (input ?c) = with_key ops (last (cursors pages))"
      by (auto simp: fetch_sent_def)
    have k: "cursors pages \<noteq> []" "hd (cursors pages) = None"
      by (simp_all add: cursors_def)
    from frame p(3) ops' have "ops' = ops\<lparr>QueryInput := with_key ops (last (cursors pages))\<rparr>"
      by simp
    with k p cl sel show ?thesis
      by (intro exI [of _ "cursors pages"] exI [of _ pages] exI [of _ creq]
            exI [of _ canswer]) auto
  qed
qed

text \<open>
  Claim C10, as amended.  \<open>ScanAll\<close>, \<open>QueryAll\<close> and \<open>QueryWithPagination\<close> assign to
  \<open>ExclusiveStartKey\<close> of the caller's request at every iteration, nil first and then
  the cursor of each page, and each request goes out with the key just assigned.  When
  the call returns the caller's request holds the last key assigned, whatever it held
  before, and is otherwise as it was passed.  \<open>GetQueryCount\<close> sends a copy with
  \<open>Select\<close> set to \<open>COUNT\<close>: the count query of \<open>QueryWithPagination\<close> goes out so,
  and the caller's request comes back with its own \<open>Select\<close>.
\<close>

theorem request_rewritten_in_place:
  "(\<forall>r req' tr'. ScanAll d tr sreq = Some (r, req', tr') \<longrightarrow>
      (\<exists>ps final. scan_chain d tr sreq None ps final
         \<and> tr' = tr @ map (\<lambda>key. CallScan (sreq\<lparr>ScanInput.ExclusiveStartKey := key\<rparr>))
                        (None # map ScanOutput.LastEvaluatedKey ps)
         \<and> req' = sreq\<lparr>ScanInput.ExclusiveStartKey :=
                        last (None # map ScanOutput.LastEvaluatedKey ps)\<rparr>))
   \<and> (\<forall>r req' tr'. QueryAll d tr qreq = Some (r, req', tr') \<longrightarrow>
      (\<exists>ps final. query_chain d tr qreq None ps final
         \<and> tr' = tr @ map (\<lambda>key. CallQuery (qreq\<lparr>QueryInput.ExclusiveStartKey := key\<rparr>))
                        (None # map QueryOutput.LastEvaluatedKey ps)
         \<and> req' = qreq\<lparr>QueryInput.ExclusiveStartKey :=
                        last (None # map QueryOutput.LastEvaluatedKey ps)\<rparr>))
   \<and> (\<forall>r ops' tr'.
        QueryWithPagination d sched tr ops = Some (Returned (r, ops', tr')) \<longrightarrow>
        (\<exists>keys pages creq canswer.
            keys \<noteq> [] \<and> hd keys = None
          \<and> (map snd (fetch_log (run d sched (start tr ops))) = map Inr pages
                \<and> keys = butlast (cursors pages)
              \<or> (\<exists>msg. map snd (fetch_log (run d sched (start tr ops)))
                          = map Inr pages @ [Inl msg])
                \<and> keys = cursors pages)
          \<and> map fst (fetch_log (run d sched (start tr ops))) = map (with_key ops) keys
          \<and> ops' = ops\<lparr>QueryInput := with_key ops (last keys)\<rparr>
          \<and> count_log (run d sched (start tr ops)) = [(creq, canswer)]
          \<and> Select creq = SelectCount))
   \<and> snd (GetQueryCount d tr qreq) = tr @ [CallQuery (qreq\<lparr>Select := SelectCount\<rparr>)]"
proof (intro conjI allI impI)
  fix r req' tr'
  assume a: "ScanAll d tr sreq = Some (r, req', tr')"
  show "\<exists>ps final. scan_chain d tr sreq None ps final
         \<and> tr' = tr @ map (\<lambda>key. CallScan (sreq\<lparr>ScanInput.ExclusiveStartKey := key\<rparr>))
                        (None # map ScanOutput.LastEvaluatedKey ps)
         \<and> req' = sreq\<lparr>ScanInput.ExclusiveStartKey :=
                        last (None # map ScanOutput.LastEvaluatedKey ps)\<rparr>"
    by (insert ScanAll_returns [OF a], elim exE conjE, intro exI conjI, assumption+)
next
  fix r req' tr'
  assume a: "QueryAll d tr qreq = Some (r, req', tr')"
  show "\<exists>ps final. query_chain d tr qreq None ps final
         \<and> tr' = tr @ map (\<lambda>key. CallQuery (qreq\<lparr>QueryInput.ExclusiveStartKey := key\<rparr>))
                        (None # map QueryOutput.LastEvaluatedKey ps)
         \<and> req' = qreq\<lparr>QueryInput.ExclusiveStartKey :=
                        last (None # map QueryOutput.LastEvaluatedKey ps)\<rparr>"
    by (insert QueryAll_returns [OF a], elim exE conjE, intro exI conjI, assumption+)
next
  fix r ops' tr'
  assume a: "QueryWithPagination d sched tr ops = Some (Returned (r, ops', tr'))"
  show "\<exists>keys pages creq canswer.
            keys \<noteq> [] \<and> hd keys = None
          \<and> (map snd (fetch_log (run d sched (start tr ops))) = map Inr pages
                \<and> keys = butlast (cursors pages)
              \<or> (\<exists>msg. map snd (fetch_log (run d sched (start tr ops)))
                          = map Inr pages @ [Inl msg])
                \<and> keys = cursors pages)
          \<and> map fst (fetch_log (run d sched (start tr ops))) = map (with_key ops) keys
          \<and> ops' = ops\<lparr>QueryInput := with_key ops (last keys)\<rparr>
          \<and> count_log (run d sched (start tr ops)) = [(creq, canswer)]
          \<and> Select creq = SelectCount"
    by (rule QueryWithPagination_request_after [OF a])
next
  show "snd (GetQueryCount d tr qreq) = tr @ [CallQuery (qreq\<lparr>Select := SelectCount\<rparr>)]"
    by (auto simp: GetQueryCount_def Let_def Select_update_same split: sum.splits)
qed

theorem ScanAll_start_key_kept_counterexample:
  "ScanAll (table_client [[1, 2, 3 :: nat]] []) [] example_scan
     = Some ((Some [1, 2, 3], None), example_scan, [CallScan example_scan])"
  by (simp add: ScanAll_def ScanAll_loop.simps table_client_def table_Scan_def example_scan_def
        Let_def)

theorem request_rewritten_in_place_witness:
  "ScanAll (table_client example_table []) [] example_scan
     = Some ((Some [1, 2, 3, 4, 5, 6, 7, 8, 9, 10], None),
             example_scan\<lparr>ScanInput.ExclusiveStartKey := Some 3\<rparr>,
             [CallScan example_scan,
              CallScan (example_scan\<lparr>ScanInput.ExclusiveStartKey := Some 3\<rparr>)])
   \<and> QueryAll (table_client example_table []) [] example_query
     = Some ((Some [1, 2, 3, 4, 5, 6, 7, 8, 9, 10], None),
             example_query\<lparr>QueryInput.ExclusiveStartKey := Some 3\<rparr>,
             [CallQuery example_query,
              CallQuery (example_query\<lparr>QueryInput.ExclusiveStartKey := Some 3\<rparr>)])
   \<and> QueryWithPagination (table_client example_table []) count_first [] example_ops
       = Some (Returned
           ((Some \<lparr>PaginatedResults.Items = [3, 4, 5], PaginatedResults.Skip = 2,
                   PaginatedResults.Limit = 5, PaginatedResults.Count = 10\<rparr>, None),
            example_ops\<lparr>QueryInput := example_query\<lparr>QueryInput.ExclusiveStartKey := Some 3\<rparr>\<rparr>,
            [CallQuery (example_query\<lparr>Select := SelectCount\<rparr>), CallQuery example_query,
             CallQuery (example_query\<lparr>QueryInput.ExclusiveStartKey := Some 3\<rparr>)]))
   \<and> length (count_log (run (table_client example_table []) count_first
         (start [] example_ops))) = 1"
proof -
  have s: "ScanAll (table_client example_table []) [] example_scan
     = Some ((Some [1, 2, 3, 4, 5, 6, 7, 8, 9, 10], None),
             example_scan\<lparr>ScanInput.ExclusiveStartKey := Some 3\<rparr>,
             [CallScan example_scan,
              CallScan (example_scan\<lparr>ScanInput.ExclusiveStartKey := Some 3\<rparr>)])"
    by (simp add: ScanAll_def ScanAll_loop.simps table_client_def table_Scan_def
          example_scan_def example_table_def Let_def)
  have q: "QueryAll (table_client example_table []) [] example_query
     = Some ((Some [1, 2, 3, 4, 5, 6, 7, 8, 9, 10], None),
             example_query\<lparr>QueryInput.ExclusiveStartKey := Some 3\<rparr>,
             [CallQuery example_query,
              CallQuery (example_query\<lparr>QueryInput.ExclusiveStartKey := Some 3\<rparr>)])"
    by (simp add: QueryAll_def QueryAll_loop.simps table_client_def table_Query_def
          example_query_def example_table_def SelectCount_def Let_def)
  have p: "QueryWithPagination (table_client example_table []) count_first [] example_ops
       = Some (Returned
           ((Some \<lparr>PaginatedResults.Items = [3, 4, 5], PaginatedResults.Skip = 2,
                   PaginatedResults.Limit = 5, PaginatedResults.Count = 10\<rparr>, None),
            example_ops\<lparr>QueryInput := example_query\<lparr>QueryInput.ExclusiveStartKey := Some 3\<rparr>\<rparr>,
            [CallQuery (example_query\<lparr>Select := SelectCount\<rparr>), CallQuery example_query,
             CallQuery (example_query\<lparr>QueryInput.ExclusiveStartKey := Some 3\<rparr>)]))"
    by (simp add: run_example count_first_def)
  note t = request_rewritten_in_place [of "table_client example_table []" "[]" example_scan
      example_query count_first example_ops]
  note t3 = t [THEN conjunct2, THEN conjunct2, THEN conjunct1, rule_format, OF p]
  from t3 obtain creq canswer where
    "count_log (run (table_client example_table []) count_first (start [] example_ops))
       = [(creq, canswer)]"
    by (elim exE conjE)
  then have "length (count_log (run (table_client example_table []) count_first
         (start [] example_ops))) = 1"
    by simp
  with s q p show ?thesis by (intro conjI)
qed

section \<open>The request that is counted\<close>

text \<open>
  Claim C2 at a schedule in which the counting goroutine is held up until the fetching
  goroutine has received its first page and assigned the cursor: the copy that goes to
  \<open>GetQueryCount\<close> carries that cursor, the client counts the seven items after it,
  and \<open>Count\<close> is 7, while the caller's query matches ten items.
\<close>

theorem QueryWithPagination_counts_from_cursor:
  "count_log (run (table_client example_table []) count_after_first_page
       (start [] example_ops))
     = [(example_query\<lparr>QueryInput.ExclusiveStartKey := Some 3, Select := SelectCount\<rparr>,
         Inr \<lparr>QueryOutput.Items = [], QueryOutput.LastEvaluatedKey = None,
              QueryOutput.Count = 7\<rparr>)]
   \<and> client_Query (table_client example_table []) []
         (example_query\<lparr>Select := SelectCount\<rparr>)
       = Inr \<lparr>QueryOutput.Items = [], QueryOutput.LastEvaluatedKey = None,
              QueryOutput.Count = 10\<rparr>
   \<and> QueryWithPagination (table_client example_table []) count_after_first_page []
         example_ops
       = Some (Returned
           ((Some \<lparr>PaginatedResults.Items = [3, 4, 5], PaginatedResults.Skip = 2,
                   PaginatedResults.Limit = 5, PaginatedResults.Count = 7\<rparr>, None),
            example_ops\<lparr>QueryInput := example_query\<lparr>QueryInput.ExclusiveStartKey := Some 3\<rparr>\<rparr>,
            [CallQuery example_query,
             CallQuery (example_query\<lparr>QueryInput.ExclusiveStartKey := Some 3,
                          Select := SelectCount\<rparr>),
             CallQuery (example_query\<lparr>QueryInput.ExclusiveStartKey := Some 3\<rparr>)]))"
  by (simp add: run_example count_after_first_page_def)

text \<open>
  Claim C3, the scenario of the specification: ten items in pages of three and seven,
  \<open>Skip = 2\<close>, \<open>Limit = 5\<close>.  The items returned are the third to the fifth under
  every schedule.  \<open>Count\<close> is 10 when the counting goroutine copies the request first,
  and 7 when it is scheduled after the fetching goroutine.
\<close>

theorem QueryWithPagination_scenario:
  "QueryWithPagination (table_client example_table []) count_first [] example_ops
       = Some (Returned
           ((Some \<lparr>PaginatedResults.Items = [3, 4, 5], PaginatedResults.Skip = 2,
                   PaginatedResults.Limit = 5, PaginatedResults.Count = 10\<rparr>, None),
            example_ops\<lparr>QueryInput := example_query\<lparr>QueryInput.ExclusiveStartKey := Some 3\<rparr>\<rparr>,
            [CallQuery (example_query\<lparr>Select := SelectCount\<rparr>), CallQuery example_query,
             CallQuery (example_query\<lparr>QueryInput.ExclusiveStartKey := Some 3\<rparr>)]))
   \<and> QueryWithPagination (table_client example_table []) fetch_first [] example_ops
       = Some (Returned
           ((Some \<lparr>PaginatedResults.Items = [3, 4, 5], PaginatedResults.Skip = 2,
                   PaginatedResults.Limit = 5, PaginatedResults.Count = 7\<rparr>, None),
            example_ops\<lparr>QueryInput := example_query\<lparr>QueryInput.ExclusiveStartKey := Some 3\<rparr>\<rparr>,
            [CallQuery example_query,
             CallQuery (example_query\<lparr>QueryInput.ExclusiveStartKey := Some 3\<rparr>),
             CallQuery (example_query\<lparr>QueryInput.ExclusiveStartKey := Some 3,
                          Select := SelectCount\<rparr>)]))"
  by (simp add: run_example count_first_def fetch_first_def)

end
